theory Spec2Isabelle
  imports Main
begin

section \<open>JavaScript values\<close>

text \<open>
  A JavaScript string is modelled as the list of its Unicode code points. A code point in
  the range D800..DFFF stands for a lone surrogate code unit; a surrogate pair is the one
  code point it encodes. \<open>str\<close> turns an Isabelle literal into such a string.
\<close>

type_synonym jsstring = "nat list"

abbreviation str :: "string \<Rightarrow> jsstring" where
  "str s \<equiv> map of_char s"

text \<open>A thrown value: a generic \<open>Error\<close> with its message, or the built-in \<open>URIError\<close>.\<close>

datatype error = Error jsstring | URIError

text \<open>
  A \<open>Date\<close>: \<open>new Date()\<close> is the clock reading in milliseconds, \<open>new Date(s)\<close> is kept
  symbolic (no property here depends on how a date string is parsed).
\<close>

datatype date = DateAt int | DateParsed jsstring

text \<open>
  \<open>a || b\<close>: \<open>undefined\<close>, \<open>null\<close>, the empty string and the number zero are falsy.
  An optional value is \<open>None\<close> when the field is \<open>undefined\<close> or \<open>null\<close>.
\<close>

definition truthyStr :: "jsstring option \<Rightarrow> jsstring option" where
  "truthyStr v = (case v of None \<Rightarrow> None | Some s \<Rightarrow> if s = [] then None else Some s)"

definition orStr :: "jsstring option \<Rightarrow> jsstring \<Rightarrow> jsstring" where
  "orStr v d = (case truthyStr v of None \<Rightarrow> d | Some s \<Rightarrow> s)"

definition orNum :: "int option \<Rightarrow> int \<Rightarrow> int" where
  "orNum v d = (case v of None \<Rightarrow> d | Some n \<Rightarrow> if n = 0 then d else n)"

definition orBool :: "bool option \<Rightarrow> bool \<Rightarrow> bool" where
  "orBool v d = (case v of None \<Rightarrow> d | Some b \<Rightarrow> if b then True else d)"

text \<open>
  A value that is rendered in a template literal keeps \<open>undefined\<close> and \<open>null\<close> apart:
  \<open>`${v}`\<close> is the text \<open>undefined\<close> for the one and \<open>null\<close> for the other. Both are
  falsy, as is the empty string.
\<close>

datatype jsval = Undefined | Null | Str jsstring

definition orVal :: "jsval \<Rightarrow> jsstring \<Rightarrow> jsstring" where
  "orVal v d = (case v of Str s \<Rightarrow> if s = [] then d else s | _ \<Rightarrow> d)"

definition template :: "jsval \<Rightarrow> jsstring" where
  "template v =
     (case v of Undefined \<Rightarrow> str ''undefined'' | Null \<Rightarrow> str ''null'' | Str s \<Rightarrow> s)"

section \<open>The catalog: data model of content-service.ts\<close>

text \<open>An entry of the bulk listing (\<open>listVideos\<close>): its object key and URL.\<close>

record S3File =
  s3_key :: "jsstring option"
  s3_url :: "jsstring option"

text \<open>What \<open>extractMovieInfo\<close> derives from an object key.\<close>

record MovieInfo =
  mi_id :: jsstring
  mi_title :: jsval
  mi_genre :: jsval
  mi_fileType :: jsstring

record MovieFile =
  mf_type :: jsstring
  mf_key :: "jsstring option"
  mf_url :: "jsstring option"

text \<open>A value of \<open>movieMap\<close>: the files of the listing that share one derived id.\<close>

record Movie =
  mv_id :: jsstring
  mv_title :: jsval
  mv_genre :: jsval
  mv_files :: "MovieFile list"

text \<open>A row of the structured-record store (\<open>getDynamoVideos\<close>); every attribute but the key may be absent.\<close>

record DynamoVideo =
  dv_id :: jsstring
  dv_title :: "jsstring option"
  dv_description :: "jsstring option"
  dv_thumbnailKey :: "jsstring option"
  dv_videoKey :: "jsstring option"
  dv_duration :: "int option"
  dv_releaseYear :: "int option"
  dv_genre :: "jsstring option"
  dv_rating :: "jsstring option"
  dv_featured :: "bool option"
  dv_createdAt :: "jsstring option"

text \<open>\<open>interface ProcessedVideo\<close>: an entry of the in-memory catalog.\<close>

record ProcessedVideo =
  pv_id :: jsstring
  pv_title :: jsstring
  pv_description :: jsstring
  pv_thumbnailUrl :: "jsstring option"
  pv_videoUrl :: "jsstring option"
  pv_hlsUrl :: jsstring
  pv_duration :: int
  pv_releaseYear :: int
  pv_genre :: jsstring
  pv_rating :: jsstring
  pv_featured :: bool
  pv_category :: jsstring
  pv_createdAt :: date

text \<open>The item written to the table \<open>StreamingVideos\<close> (\<open>createdAt\<close> is the ISO rendering of the date).\<close>

record VideoItem =
  it_id :: jsstring
  it_title :: jsstring
  it_description :: jsstring
  it_thumbnailKey :: jsstring
  it_videoKey :: jsstring
  it_genre :: jsstring
  it_releaseYear :: int
  it_duration :: int
  it_rating :: jsstring
  it_createdAt :: date

section \<open>The collaborators\<close>

text \<open>
  Every call to a backing source, to the URL signer and to the record store is an event of
  the history. The modules \<open>./s3\<close> and \<open>./dynamodb\<close> are not part of the sources, so
  their functions are parameters: each answer may depend on the whole history so far, which
  covers any behaviour of the outside world. \<open>development\<close> is
  \<open>process.env.NODE_ENV === 'development'\<close>; \<open>clock\<close> is \<open>Date.now()\<close>;
  \<open>randomId\<close> is \<open>Math.floor(Math.random() * 10000)\<close>.
\<close>

datatype event =
  ListVideos jsstring
  | GetAllVideos
  | GetSignedVideoUrl jsstring
  | PutItem jsstring VideoItem

record env =
  development :: bool
  extractMovieInfo :: "jsstring \<Rightarrow> MovieInfo option"
  listVideos :: "event list \<Rightarrow> jsstring \<Rightarrow> error + S3File list"
  getDynamoVideos :: "event list \<Rightarrow> error + DynamoVideo list option"
  getSignedVideoUrl :: "event list \<Rightarrow> jsstring \<Rightarrow> error + jsstring option"
  putItem :: "event list \<Rightarrow> jsstring \<Rightarrow> VideoItem \<Rightarrow> error option"
  clock :: "event list \<Rightarrow> int"
  randomId :: "event list \<Rightarrow> nat"

text \<open>The module state: \<open>videosCache\<close> and \<open>lastCacheRefresh\<close>.\<close>

record state =
  videosCache :: "ProcessedVideo list"
  lastCacheRefresh :: int

definition CACHE_TTL :: int where
  "CACHE_TTL = 60 * 1000"

section \<open>refreshCache\<close>

text \<open>
  \<open>movieMap\<close> is a JavaScript \<open>Map\<close>: keys are unique and iteration follows insertion
  order, so it is an association list to which a new key is appended.
\<close>

definition mapHas :: "(jsstring \<times> Movie) list \<Rightarrow> jsstring \<Rightarrow> bool" where
  "mapHas movieMap k = list_ex (\<lambda>p. fst p = k) movieMap"

fun pushFile :: "jsstring \<Rightarrow> MovieFile \<Rightarrow> (jsstring \<times> Movie) list \<Rightarrow> (jsstring \<times> Movie) list" where
  "pushFile k f [] = []"
| "pushFile k f (p # rest) =
     (if fst p = k then (fst p, (snd p)\<lparr>mv_files := mv_files (snd p) @ [f]\<rparr>) # rest
      else p # pushFile k f rest)"

text \<open>The body of \<open>s3Videos.forEach\<close>.\<close>

definition groupFile :: "env \<Rightarrow> (jsstring \<times> Movie) list \<Rightarrow> S3File \<Rightarrow> (jsstring \<times> Movie) list" where
  "groupFile e movieMap file =
     (case extractMovieInfo e (orStr (s3_key file) []) of
        None \<Rightarrow> movieMap
      | Some movieInfo \<Rightarrow>
          (let movieId = mi_id movieInfo;
               movieMap1 =
                 (if \<not> mapHas movieMap movieId
                  then movieMap @ [(movieId, \<lparr>mv_id = movieId, mv_title = mi_title movieInfo,
                                              mv_genre = mi_genre movieInfo, mv_files = []\<rparr>)]
                  else movieMap)
           in pushFile movieId
                \<lparr>mf_type = mi_fileType movieInfo, mf_key = s3_key file, mf_url = s3_url file\<rparr>
                movieMap1))"

definition groupFiles :: "env \<Rightarrow> S3File list \<Rightarrow> (jsstring \<times> Movie) list" where
  "groupFiles e s3Videos = foldl (groupFile e) [] s3Videos"

text \<open>\<open>key ? await getSignedVideoUrl(key) : null\<close>: the signer is called for a truthy key only.\<close>

definition signIfKey :: "env \<Rightarrow> jsstring option \<Rightarrow> event list \<Rightarrow> (error + jsstring option) \<times> event list" where
  "signIfKey e k tr =
     (case truthyStr k of
        None \<Rightarrow> (Inr None, tr)
      | Some key \<Rightarrow> (getSignedVideoUrl e tr key, tr @ [GetSignedVideoUrl key]))"

definition thumbnailOf :: "Movie \<Rightarrow> MovieFile option" where
  "thumbnailOf movie = find (\<lambda>f. mf_type f = str ''png'') (mv_files movie)"

definition videoOf :: "Movie \<Rightarrow> MovieFile option" where
  "videoOf movie = find (\<lambda>f. mf_type f = str ''mp4'') (mv_files movie)"

text \<open>The \<open>processedVideo\<close> built from a group of the listing that has a video file.\<close>

definition fromMovie :: "Movie \<Rightarrow> MovieFile option \<Rightarrow> MovieFile \<Rightarrow> jsstring option \<Rightarrow> date \<Rightarrow> ProcessedVideo" where
  "fromMovie movie thumbnailFile videoFile videoUrl now =
     \<lparr>pv_id = mv_id movie,
      pv_title = orVal (mv_title movie) (str ''Untitled''),
      pv_description = template (mv_genre movie) @ str '' movie: '' @ template (mv_title movie),
      pv_thumbnailUrl = (case thumbnailFile of None \<Rightarrow> None | Some t \<Rightarrow> mf_key t),
      pv_videoUrl = videoUrl,
      pv_hlsUrl = orStr (mf_key videoFile) [],
      pv_duration = 120,
      pv_releaseYear = 2023,
      pv_genre = orVal (mv_genre movie) (str ''Unknown''),
      pv_rating = str ''PG-13'',
      pv_featured = (mv_id movie = str ''1''),
      pv_category = orVal (mv_genre movie) (str ''General''),
      pv_createdAt = now\<rparr>"

definition itemOfMovie :: "ProcessedVideo \<Rightarrow> MovieFile option \<Rightarrow> MovieFile \<Rightarrow> date \<Rightarrow> VideoItem" where
  "itemOfMovie pv thumbnailFile videoFile now =
     \<lparr>it_id = pv_id pv,
      it_title = pv_title pv,
      it_description = pv_description pv,
      it_thumbnailKey = orStr (case thumbnailFile of None \<Rightarrow> None | Some t \<Rightarrow> mf_key t) [],
      it_videoKey = orStr (mf_key videoFile) [],
      it_genre = pv_genre pv,
      it_releaseYear = pv_releaseYear pv,
      it_duration = pv_duration pv,
      it_rating = pv_rating pv,
      it_createdAt = now\<rparr>"

text \<open>
  The mirror write of the refresh pass sits in its own \<open>try\<close>/\<open>catch\<close>: outside development
  mode \<open>putItem\<close> is called, and whatever it answers is swallowed.
\<close>

definition mirror :: "env \<Rightarrow> VideoItem \<Rightarrow> event list \<Rightarrow> event list" where
  "mirror e item tr = (if \<not> development e then tr @ [PutItem (str ''StreamingVideos'') item] else tr)"

text \<open>The loop over \<open>movieMap.values()\<close>; a failing signer aborts the pass.\<close>

fun processMovies :: "env \<Rightarrow> Movie list \<Rightarrow> ProcessedVideo list \<Rightarrow> event list
    \<Rightarrow> (error + ProcessedVideo list) \<times> event list" where
  "processMovies e [] processedVideos tr = (Inr processedVideos, tr)"
| "processMovies e (movie # rest) processedVideos tr =
     (case videoOf movie of
        None \<Rightarrow> processMovies e rest processedVideos tr
      | Some videoFile \<Rightarrow>
          (case signIfKey e (mf_key videoFile) tr of
             (Inl err, tr1) \<Rightarrow> (Inl err, tr1)
           | (Inr videoUrl, tr1) \<Rightarrow>
               (let processedVideo =
                      fromMovie movie (thumbnailOf movie) videoFile videoUrl (DateAt (clock e tr1));
                    tr2 = mirror e (itemOfMovie processedVideo (thumbnailOf movie) videoFile
                                      (DateAt (clock e tr1))) tr1
                in processMovies e rest (processedVideos @ [processedVideo]) tr2)))"

text \<open>The \<open>processedVideo\<close> built from a row of the structured-record store.\<close>

definition fromDynamo :: "DynamoVideo \<Rightarrow> jsstring option \<Rightarrow> date \<Rightarrow> ProcessedVideo" where
  "fromDynamo dynamoVideo videoUrl now =
     \<lparr>pv_id = dv_id dynamoVideo,
      pv_title = orStr (dv_title dynamoVideo) (str ''Untitled''),
      pv_description = orStr (dv_description dynamoVideo) (str ''No description''),
      pv_thumbnailUrl = truthyStr (dv_thumbnailKey dynamoVideo),
      pv_videoUrl = videoUrl,
      pv_hlsUrl = orStr (dv_videoKey dynamoVideo) [],
      pv_duration = orNum (dv_duration dynamoVideo) 0,
      pv_releaseYear = orNum (dv_releaseYear dynamoVideo) 2023,
      pv_genre = orStr (dv_genre dynamoVideo) (str ''Unknown''),
      pv_rating = orStr (dv_rating dynamoVideo) (str ''PG-13''),
      pv_featured = orBool (dv_featured dynamoVideo) False,
      pv_category = orStr (dv_genre dynamoVideo) (str ''General''),
      pv_createdAt = (case truthyStr (dv_createdAt dynamoVideo) of
                        None \<Rightarrow> now | Some s \<Rightarrow> DateParsed s)\<rparr>"

text \<open>The loop over \<open>dynamoVideos\<close>: a row whose id is already in \<open>processedVideos\<close> is skipped.\<close>

fun mergeDynamo :: "env \<Rightarrow> DynamoVideo list \<Rightarrow> ProcessedVideo list \<Rightarrow> event list
    \<Rightarrow> (error + ProcessedVideo list) \<times> event list" where
  "mergeDynamo e [] processedVideos tr = (Inr processedVideos, tr)"
| "mergeDynamo e (dynamoVideo # rest) processedVideos tr =
     (if list_ex (\<lambda>v. pv_id v = dv_id dynamoVideo) processedVideos
      then mergeDynamo e rest processedVideos tr
      else
        (case signIfKey e (dv_videoKey dynamoVideo) tr of
           (Inl err, tr1) \<Rightarrow> (Inl err, tr1)
         | (Inr videoUrl, tr1) \<Rightarrow>
             mergeDynamo e rest
               (processedVideos @ [fromDynamo dynamoVideo videoUrl (DateAt (clock e tr1))]) tr1))"

text \<open>The assets built from the bulk listing alone (the first loop of the \<open>try\<close> block).\<close>

definition processS3 :: "env \<Rightarrow> S3File list \<Rightarrow> event list \<Rightarrow> (error + ProcessedVideo list) \<times> event list" where
  "processS3 e s3Videos tr = processMovies e (map snd (groupFiles e s3Videos)) [] tr"

text \<open>The body of the \<open>try\<close> block up to the cache update: an error, or the new \<open>processedVideos\<close>.\<close>

definition refreshPass :: "env \<Rightarrow> event list \<Rightarrow> (error + ProcessedVideo list) \<times> event list" where
  "refreshPass e tr =
     (case listVideos e tr (str ''movies/'') of
        Inl err \<Rightarrow> (Inl err, tr @ [ListVideos (str ''movies/'')])
      | Inr s3Videos \<Rightarrow>
          (let tr1 = tr @ [ListVideos (str ''movies/'')] in
           case getDynamoVideos e tr1 of
             Inl err \<Rightarrow> (Inl err, tr1 @ [GetAllVideos])
           | Inr dynamoVideos \<Rightarrow>
               (case processS3 e s3Videos (tr1 @ [GetAllVideos]) of
                  (Inl err, tr3) \<Rightarrow> (Inl err, tr3)
                | (Inr processedVideos, tr3) \<Rightarrow>
                    (case dynamoVideos of
                       None \<Rightarrow> (Inr processedVideos, tr3)
                     | Some ds \<Rightarrow> mergeDynamo e ds processedVideos tr3))))"

text \<open>
  \<open>refreshCache\<close>: the gate, then the pass; the \<open>catch\<close> logs the error and returns, so the
  function itself never throws.
\<close>

definition refreshCache :: "env \<Rightarrow> state \<Rightarrow> event list \<Rightarrow> state \<times> event list" where
  "refreshCache e st tr =
     (let now = clock e tr in
      if now - lastCacheRefresh st < CACHE_TTL \<and> videosCache st \<noteq> [] then (st, tr)
      else
        (case refreshPass e tr of
           (Inl err, tr') \<Rightarrow> (st, tr')
         | (Inr processedVideos, tr') \<Rightarrow>
             (\<lparr>videosCache = processedVideos, lastCacheRefresh = now\<rparr>, tr')))"

section \<open>The catalog queries\<close>

text \<open>
  A JavaScript number as the queries use it: \<open>NaN\<close>, an infinity, or a finite double whose
  value is an integer (\<open>Num\<close> holds that value; \<open>-0\<close> and \<open>0\<close> are not told apart, as
  \<open>===\<close> does not).
\<close>

datatype number = NaN | Num int | PosInfinity | NegInfinity

text \<open>\<open>a === b\<close> on numbers: \<open>NaN\<close> equals nothing.\<close>

fun strictEq :: "number \<Rightarrow> number \<Rightarrow> bool" where
  "strictEq (Num a) (Num b) = (a = b)"
| "strictEq PosInfinity PosInfinity = True"
| "strictEq NegInfinity NegInfinity = True"
| "strictEq _ _ = False"

text \<open>
  The Number value of a natural number: the nearest double, ties to the even significand
  (53 bits). \<open>None\<close> is the overflow to infinity, from \<open>2^1024 - 2^970\<close> on.
\<close>

fun bitLength :: "nat \<Rightarrow> nat" where
  "bitLength n = (if n = 0 then 0 else Suc (bitLength (n div 2)))"

definition roundToDouble :: "nat \<Rightarrow> nat option" where
  "roundToDouble n =
     (if n < 2 ^ 53 then Some n
      else
        (let e = bitLength n - 53;
             q = n div 2 ^ e;
             r = n mod 2 ^ e;
             q' = (if 2 * r > 2 ^ e \<or> (2 * r = 2 ^ e \<and> odd q) then q + 1 else q)
         in if q' * 2 ^ e < 2 ^ 1024 then Some (q' * 2 ^ e) else None))"

definition toNumber :: "int \<Rightarrow> nat \<Rightarrow> number" where
  "toNumber sign mathInt =
     (case roundToDouble mathInt of
        Some m \<Rightarrow> Num (sign * int m)
      | None \<Rightarrow> if sign < 0 then NegInfinity else PosInfinity)"

text \<open>
  The built-in \<open>parseInt(string)\<close> with no radix (ECMAScript, \<open>parseInt\<close>): leading white
  space is skipped, one sign is read, a prefix \<open>0x\<close> or \<open>0X\<close> selects radix 16, then the
  longest prefix of digits is read as an integer; no digit at all gives \<open>NaN\<close>. The result is
  the Number value of the signed integer, so an integer beyond \<open>2^53\<close> is rounded to the
  nearest double. (ECMAScript lets an implementation approximate a decimal numeral after its
  20th significant digit; the model rounds the exact integer, as V8 does.)
\<close>

definition isWhiteSpace :: "nat \<Rightarrow> bool" where
  "isWhiteSpace c =
     (c \<in> set [0x09, 0x0A, 0x0B, 0x0C, 0x0D, 0x20, 0xA0, 0x1680, 0x2028, 0x2029, 0x202F,
                0x205F, 0x3000, 0xFEFF]
      \<or> (0x2000 \<le> c \<and> c \<le> 0x200A))"

definition digitValue :: "nat \<Rightarrow> nat option" where
  "digitValue c =
     (if 48 \<le> c \<and> c \<le> 57 then Some (c - 48)
      else if 65 \<le> c \<and> c \<le> 70 then Some (c - 55)
      else if 97 \<le> c \<and> c \<le> 102 then Some (c - 87)
      else None)"

definition isRadixDigit :: "nat \<Rightarrow> nat \<Rightarrow> bool" where
  "isRadixDigit R c = (case digitValue c of None \<Rightarrow> False | Some d \<Rightarrow> d < R)"

definition radixValue :: "nat \<Rightarrow> jsstring \<Rightarrow> nat" where
  "radixValue R Z = foldl (\<lambda>acc c. acc * R + (case digitValue c of None \<Rightarrow> 0 | Some d \<Rightarrow> d)) 0 Z"

definition stripSign :: "jsstring \<Rightarrow> jsstring" where
  "stripSign S = (case S of [] \<Rightarrow> [] | c # rest \<Rightarrow> if c = 43 \<or> c = 45 then rest else S)"

definition parseInt :: "jsstring \<Rightarrow> number" where
  "parseInt inputString =
     (let S = dropWhile isWhiteSpace inputString;
          sign = (case S of [] \<Rightarrow> (1::int) | c # _ \<Rightarrow> if c = 45 then - 1 else 1);
          S1 = stripSign S;
          hex = (case S1 of c # d # _ \<Rightarrow> c = 48 \<and> (d = 120 \<or> d = 88) | _ \<Rightarrow> False);
          R = (if hex then 16 else 10);
          S2 = (if hex then drop 2 S1 else S1);
          Z = takeWhile (isRadixDigit R) S2
      in if Z = [] then NaN else toNumber sign (radixValue R Z))"

text \<open>The type \<open>Video\<close> of the shared schema, as the service fills it.\<close>

record Video =
  v_id :: number
  v_title :: jsstring
  v_description :: jsstring
  v_thumbnailUrl :: jsstring
  v_videoUrl :: jsstring
  v_hlsUrl :: jsstring
  v_duration :: int
  v_releaseYear :: int
  v_genre :: jsstring
  v_rating :: jsstring
  v_featured :: bool
  v_category :: jsstring
  v_createdAt :: date

text \<open>The block \<open>// Convert to Video type\<close>, which every query repeats.\<close>

definition toVideo :: "ProcessedVideo \<Rightarrow> Video" where
  "toVideo video =
     \<lparr>v_id = parseInt (pv_id video),
      v_title = pv_title video,
      v_description = pv_description video,
      v_thumbnailUrl = orStr (pv_thumbnailUrl video) [],
      v_videoUrl = orStr (pv_videoUrl video) [],
      v_hlsUrl = pv_hlsUrl video,
      v_duration = pv_duration video,
      v_releaseYear = pv_releaseYear video,
      v_genre = pv_genre video,
      v_rating = pv_rating video,
      v_featured = pv_featured video,
      v_category = pv_category video,
      v_createdAt = pv_createdAt video\<rparr>"

record FeaturedContent =
  fc_video :: Video
  fc_match :: nat

text \<open>\<open>videosCache.find(v => v.featured) || videosCache[0]\<close>; \<open>undefined\<close> is \<open>None\<close>.\<close>

definition featuredOrFirst :: "ProcessedVideo list \<Rightarrow> ProcessedVideo option" where
  "featuredOrFirst cache =
     (case find pv_featured cache of
        Some v \<Rightarrow> Some v
      | None \<Rightarrow> (case cache of [] \<Rightarrow> None | v # _ \<Rightarrow> Some v))"

definition getFeaturedContent :: "env \<Rightarrow> int \<Rightarrow> state \<Rightarrow> event list
    \<Rightarrow> (error + FeaturedContent) \<times> state \<times> event list" where
  "getFeaturedContent e userId st tr =
     (case refreshCache e st tr of
        (st1, tr1) \<Rightarrow>
          (case featuredOrFirst (videosCache st1) of
             None \<Rightarrow> (Inl (Error (str ''No videos available'')), st1, tr1)
           | Some featuredVideo \<Rightarrow>
               (Inr \<lparr>fc_video = toVideo featuredVideo, fc_match = 95\<rparr>, st1, tr1)))"

text \<open>\<open>getVideoById\<close>: \<open>null\<close> is \<open>None\<close>.\<close>

definition getVideoById :: "env \<Rightarrow> number \<Rightarrow> state \<Rightarrow> event list
    \<Rightarrow> Video option \<times> state \<times> event list" where
  "getVideoById e videoId st tr =
     (case refreshCache e st tr of
        (st1, tr1) \<Rightarrow>
          (case find (\<lambda>v. strictEq (parseInt (pv_id v)) videoId) (videosCache st1) of
             None \<Rightarrow> (None, st1, tr1)
           | Some video \<Rightarrow> (Some (toVideo video), st1, tr1)))"

text \<open>
  \<open>getRecommendedVideos\<close>: every cached asset with a match of
  \<open>Math.floor(Math.random() * 30) + 70\<close>; the draws are a parameter (the k-th asset gets the
  k-th draw).
\<close>

record VideoWithMatch =
  vm_video :: Video
  vm_match :: nat

fun withMatches :: "(nat \<Rightarrow> nat) \<Rightarrow> nat \<Rightarrow> ProcessedVideo list \<Rightarrow> VideoWithMatch list" where
  "withMatches draws k [] = []"
| "withMatches draws k (video # rest) =
     \<lparr>vm_video = toVideo video, vm_match = draws k mod 30 + 70\<rparr> # withMatches draws (Suc k) rest"

definition getRecommendedVideos :: "env \<Rightarrow> (nat \<Rightarrow> nat) \<Rightarrow> int \<Rightarrow> state \<Rightarrow> event list
    \<Rightarrow> VideoWithMatch list \<times> state \<times> event list" where
  "getRecommendedVideos e draws userId st tr =
     (case refreshCache e st tr of
        (st1, tr1) \<Rightarrow> (withMatches draws 0 (videosCache st1), st1, tr1))"

text \<open>
  \<open>getContentCategories\<close>: \<open>categoriesMap\<close> is a \<open>Map\<close> from the category to its videos,
  in first-seen order; the categories are then numbered from 1.
\<close>

record CategoryWithVideos =
  cat_id :: nat
  cat_title :: jsstring
  cat_videos :: "VideoWithMatch list"

fun pushVideo :: "jsstring \<Rightarrow> VideoWithMatch \<Rightarrow> (jsstring \<times> VideoWithMatch list) list
    \<Rightarrow> (jsstring \<times> VideoWithMatch list) list" where
  "pushVideo category x [] = []"
| "pushVideo category x (p # rest) =
     (if fst p = category then (fst p, snd p @ [x]) # rest else p # pushVideo category x rest)"

fun groupVideos :: "(nat \<Rightarrow> nat) \<Rightarrow> nat \<Rightarrow> ProcessedVideo list
    \<Rightarrow> (jsstring \<times> VideoWithMatch list) list \<Rightarrow> (jsstring \<times> VideoWithMatch list) list" where
  "groupVideos draws k [] categoriesMap = categoriesMap"
| "groupVideos draws k (video # rest) categoriesMap =
     (let category = pv_category video;
          categoriesMap1 =
            (if \<not> list_ex (\<lambda>p. fst p = category) categoriesMap
             then categoriesMap @ [(category, [])] else categoriesMap)
      in groupVideos draws (Suc k) rest
           (pushVideo category \<lparr>vm_video = toVideo video, vm_match = draws k mod 30 + 70\<rparr>
              categoriesMap1))"

fun numberCategories :: "nat \<Rightarrow> (jsstring \<times> VideoWithMatch list) list \<Rightarrow> CategoryWithVideos list" where
  "numberCategories categoryId [] = []"
| "numberCategories categoryId (p # rest) =
     \<lparr>cat_id = categoryId, cat_title = fst p, cat_videos = snd p\<rparr>
       # numberCategories (Suc categoryId) rest"

definition getContentCategories :: "env \<Rightarrow> (nat \<Rightarrow> nat) \<Rightarrow> int \<Rightarrow> state \<Rightarrow> event list
    \<Rightarrow> CategoryWithVideos list \<times> state \<times> event list" where
  "getContentCategories e draws userId st tr =
     (case refreshCache e st tr of
        (st1, tr1) \<Rightarrow> (numberCategories 1 (groupVideos draws 0 (videosCache st1) []), st1, tr1))"

text \<open>
  Whether a string, after leading white space and at most one sign, begins with a decimal
  digit.
\<close>

definition beginsWithDigit :: "jsstring \<Rightarrow> bool" where
  "beginsWithDigit s =
     (case stripSign (dropWhile isWhiteSpace s) of [] \<Rightarrow> False | c # _ \<Rightarrow> 48 \<le> c \<and> c \<le> 57)"

text \<open>The videos that a category map lists.\<close>

definition listed :: "(jsstring \<times> VideoWithMatch list) list \<Rightarrow> Video set" where
  "listed cm = vm_video ` set (concat (map snd cm))"

section \<open>Ingest: requestTranscodeJob\<close>

text \<open>\<open>n.toString()\<close> for a natural number: its decimal digits.\<close>

fun showNat :: "nat \<Rightarrow> jsstring" where
  "showNat n = (if n < 10 then [48 + n] else showNat (n div 10) @ [48 + n mod 10])"

text \<open>
  The object that \<open>requestTranscodeJob\<close> returns; an absent \<open>dev\<close> is \<open>False\<close>, an absent
  \<open>videoId\<close> is \<open>None\<close>.
\<close>

record JobResult =
  jr_success :: bool
  jr_dev :: bool
  jr_message :: jsstring
  jr_videoId :: "jsstring option"

definition ingestId :: "env \<Rightarrow> jsstring \<Rightarrow> event list \<Rightarrow> jsstring" where
  "ingestId e s3Key tr =
     orStr (map_option mi_id (extractMovieInfo e s3Key)) (showNat (randomId e tr mod 10000))"

text \<open>\<open>movieInfo?.genre\<close>: \<open>undefined\<close> when \<open>extractMovieInfo\<close> found nothing.\<close>

definition ingestGenre :: "env \<Rightarrow> jsstring \<Rightarrow> jsval" where
  "ingestGenre e s3Key =
     (case extractMovieInfo e s3Key of None \<Rightarrow> Undefined | Some movieInfo \<Rightarrow> mi_genre movieInfo)"

definition newVideoOf :: "env \<Rightarrow> jsstring \<Rightarrow> jsstring \<Rightarrow> jsstring \<Rightarrow> jsstring option
    \<Rightarrow> event list \<Rightarrow> event list \<Rightarrow> ProcessedVideo" where
  "newVideoOf e title description s3Key videoUrl tr tr1 =
     \<lparr>pv_id = ingestId e s3Key tr,
      pv_title = title,
      pv_description = description,
      pv_thumbnailUrl = None,
      pv_videoUrl = videoUrl,
      pv_hlsUrl = s3Key,
      pv_duration = 0,
      pv_releaseYear = 2023,
      pv_genre = orVal (ingestGenre e s3Key) (str ''Unknown''),
      pv_rating = str ''NR'',
      pv_featured = False,
      pv_category = orVal (ingestGenre e s3Key) (str ''Uploads''),
      pv_createdAt = DateAt (clock e tr1)\<rparr>"

definition ingestItem :: "env \<Rightarrow> jsstring \<Rightarrow> jsstring \<Rightarrow> jsstring \<Rightarrow> event list
    \<Rightarrow> event list \<Rightarrow> VideoItem" where
  "ingestItem e title description s3Key tr tr1 =
     \<lparr>it_id = ingestId e s3Key tr,
      it_title = title,
      it_description = description,
      it_thumbnailKey = [],
      it_videoKey = s3Key,
      it_genre = orVal (ingestGenre e s3Key) (str ''Unknown''),
      it_releaseYear = 2023,
      it_duration = 0,
      it_rating = str ''NR'',
      it_createdAt = DateAt (clock e tr1)\<rparr>"

definition devResult :: JobResult where
  "devResult = \<lparr>jr_success = True, jr_dev = True,
                 jr_message = str ''Video processed in development mode'', jr_videoId = None\<rparr>"

text \<open>
  \<open>requestTranscodeJob\<close>. The \<open>catch\<close> returns a success object in development mode and
  rethrows otherwise; the cache is never consulted through \<open>refreshCache\<close>.
\<close>

definition requestTranscodeJob :: "env \<Rightarrow> jsstring \<Rightarrow> jsstring \<Rightarrow> jsstring \<Rightarrow> state
    \<Rightarrow> event list \<Rightarrow> (error + JobResult) \<times> state \<times> event list" where
  "requestTranscodeJob e title description s3Key st tr =
     (let tr1 = tr @ [GetSignedVideoUrl s3Key] in
      case getSignedVideoUrl e tr s3Key of
        Inl err \<Rightarrow> ((if development e then Inr devResult else Inl err), st, tr1)
      | Inr videoUrl \<Rightarrow>
          (let newVideo = newVideoOf e title description s3Key videoUrl tr tr1;
               st1 = st\<lparr>videosCache := videosCache st @ [newVideo]\<rparr>;
               done = \<lparr>jr_success = True, jr_dev = False,
                        jr_message = str ''Video processed successfully'',
                        jr_videoId = Some (ingestId e s3Key tr)\<rparr>
           in if \<not> development e then
                (let item = ingestItem e title description s3Key tr tr1;
                     tr2 = tr1 @ [PutItem (str ''StreamingVideos'') item]
                 in case putItem e tr1 (str ''StreamingVideos'') item of
                      Some err \<Rightarrow> (Inl err, st1, tr2)
                    | None \<Rightarrow> (Inr done, st1, tr2))
              else (Inr done, st1, tr1)))"

section \<open>The built-ins encodeURIComponent and decodeURIComponent\<close>

text \<open>
  The two built-ins after ECMAScript (\<open>Encode\<close> and \<open>Decode\<close> with the sets of
  \<open>encodeURIComponent\<close> and \<open>decodeURIComponent\<close>). \<open>encodeURIComponent\<close> keeps the
  unreserved characters and writes every other code point as the escapes \<open>%XX\<close> of its
  UTF-8 octets; a lone surrogate (or a number that is no code point) throws \<open>URIError\<close>.
  \<open>decodeURIComponent\<close> replaces every escape; an escape of an octet above 127 must start
  a well-formed UTF-8 sequence written entirely in escapes; anything else throws \<open>URIError\<close>.
\<close>

definition consOk :: "nat \<Rightarrow> error + jsstring \<Rightarrow> error + jsstring" where
  "consOk c r = (case r of Inl err \<Rightarrow> Inl err | Inr s \<Rightarrow> Inr (c # s))"

definition uriUnreserved :: "nat \<Rightarrow> bool" where
  "uriUnreserved c =
     ((48 \<le> c \<and> c \<le> 57) \<or> (65 \<le> c \<and> c \<le> 90) \<or> (97 \<le> c \<and> c \<le> 122)
      \<or> c \<in> set (str ''-_.!~*'' @ [39] @ str ''()''))"

definition isSurrogate :: "nat \<Rightarrow> bool" where
  "isSurrogate c = (0xD800 \<le> c \<and> c \<le> 0xDFFF)"

definition hexDigit :: "nat \<Rightarrow> nat" where
  "hexDigit d = (if d < 10 then 48 + d else 55 + d)"

definition pct :: "nat \<Rightarrow> jsstring" where
  "pct b = [37, hexDigit (b div 16), hexDigit (b mod 16)]"

definition utf8 :: "nat \<Rightarrow> nat list" where
  "utf8 c =
     (if c < 0x80 then [c]
      else if c < 0x800 then [0xC0 + c div 64, 0x80 + c mod 64]
      else if c < 0x10000 then [0xE0 + c div 4096, 0x80 + c div 64 mod 64, 0x80 + c mod 64]
      else [0xF0 + c div 262144, 0x80 + c div 4096 mod 64, 0x80 + c div 64 mod 64, 0x80 + c mod 64])"

fun encodeURIComponent :: "jsstring \<Rightarrow> error + jsstring" where
  "encodeURIComponent [] = Inr []"
| "encodeURIComponent (c # cs) =
     (if uriUnreserved c then consOk c (encodeURIComponent cs)
      else if isSurrogate c \<or> 0x10FFFF < c then Inl URIError
      else (case encodeURIComponent cs of
              Inl err \<Rightarrow> Inl err
            | Inr r \<Rightarrow> Inr (concat (map pct (utf8 c)) @ r)))"

definition hexOctet :: "nat \<Rightarrow> nat \<Rightarrow> nat option" where
  "hexOctet a b =
     (case digitValue a of
        None \<Rightarrow> None
      | Some x \<Rightarrow> (case digitValue b of None \<Rightarrow> None | Some y \<Rightarrow> Some (16 * x + y)))"

fun pctOctet :: "jsstring \<Rightarrow> (nat \<times> jsstring) option" where
  "pctOctet (p # a # b # rest) =
     (if p = 37 then (case hexOctet a b of None \<Rightarrow> None | Some B \<Rightarrow> Some (B, rest)) else None)"
| "pctOctet _ = None"

fun pctOctets :: "nat \<Rightarrow> jsstring \<Rightarrow> (nat list \<times> jsstring) option" where
  "pctOctets 0 s = Some ([], s)"
| "pctOctets (Suc n) s =
     (case pctOctet s of
        None \<Rightarrow> None
      | Some (B, rest) \<Rightarrow>
          (case pctOctets n rest of None \<Rightarrow> None | Some (Bs, rest') \<Rightarrow> Some (B # Bs, rest')))"

definition leadingOnes :: "nat \<Rightarrow> nat" where
  "leadingOnes B =
     (if B < 0x80 then 0 else if B < 0xC0 then 1 else if B < 0xE0 then 2
      else if B < 0xF0 then 3 else if B < 0xF8 then 4 else 5)"

definition isContinuation :: "nat \<Rightarrow> bool" where
  "isContinuation B = (0x80 \<le> B \<and> B < 0xC0)"

fun utf8Decode :: "nat list \<Rightarrow> nat option" where
  "utf8Decode [b0, b1] =
     (if 0xC2 \<le> b0 \<and> b0 < 0xE0 \<and> isContinuation b1
      then Some ((b0 - 0xC0) * 64 + (b1 - 0x80)) else None)"
| "utf8Decode [b0, b1, b2] =
     (let V = (b0 - 0xE0) * 4096 + (b1 - 0x80) * 64 + (b2 - 0x80) in
      if 0xE0 \<le> b0 \<and> b0 < 0xF0 \<and> isContinuation b1 \<and> isContinuation b2
         \<and> 0x800 \<le> V \<and> \<not> isSurrogate V
      then Some V else None)"
| "utf8Decode [b0, b1, b2, b3] =
     (let V = (b0 - 0xF0) * 262144 + (b1 - 0x80) * 4096 + (b2 - 0x80) * 64 + (b3 - 0x80) in
      if 0xF0 \<le> b0 \<and> b0 < 0xF8 \<and> isContinuation b1 \<and> isContinuation b2 \<and> isContinuation b3
         \<and> 0x10000 \<le> V \<and> V \<le> 0x10FFFF
      then Some V else None)"
| "utf8Decode _ = None"

lemma pctOctet_shorter: "pctOctet s = Some (B, rest) \<Longrightarrow> length rest < length s"
  by (induction s rule: pctOctet.induct) (auto split: if_splits option.splits)

lemma pctOctets_shorter: "pctOctets n s = Some (Bs, rest) \<Longrightarrow> length rest \<le> length s"
proof (induction n arbitrary: s Bs rest)
  case 0
  then show ?case by simp
next
  case (Suc n)
  then show ?case
    by (fastforce split: option.splits prod.splits dest: pctOctet_shorter)
qed

function decodeURIComponent :: "jsstring \<Rightarrow> error + jsstring" where
  "decodeURIComponent [] = Inr []"
| "decodeURIComponent (C # cs) =
     (if C \<noteq> 37 then consOk C (decodeURIComponent cs)
      else
        (case pctOctet (C # cs) of
           None \<Rightarrow> Inl URIError
         | Some (B, rest) \<Rightarrow>
             (if leadingOnes B = 0 then consOk B (decodeURIComponent rest)
              else if leadingOnes B = 1 \<or> 4 < leadingOnes B then Inl URIError
              else
                (case pctOctets (leadingOnes B - 1) rest of
                   None \<Rightarrow> Inl URIError
                 | Some (Bs, rest') \<Rightarrow>
                     (case utf8Decode (B # Bs) of
                        None \<Rightarrow> Inl URIError
                      | Some V \<Rightarrow> consOk V (decodeURIComponent rest'))))))"
  by pat_completeness auto
termination
proof (relation "measure length")
  show "wf (measure length)" by simp
next
  fix C :: nat and cs :: jsstring
  show "(cs, C # cs) \<in> measure length" by simp
next
  fix C :: nat and cs x2 x y
  assume "pctOctet (C # cs) = Some x2" "(x, y) = x2"
  then have "pctOctet (C # cs) = Some (x, y)" by simp
  then show "(y, C # cs) \<in> measure length" by (auto dest: pctOctet_shorter)
next
  fix C :: nat and cs x2 x y x2a xa ya x2b
  assume "pctOctet (C # cs) = Some x2" "(x, y) = x2"
    "pctOctets (leadingOnes x - 1) y = Some x2a" "(xa, ya) = x2a"
  then have "pctOctet (C # cs) = Some (x, y)" "pctOctets (leadingOnes x - 1) y = Some (xa, ya)"
    by simp_all
  then have "length y < length (C # cs)" "length ya \<le> length y"
    by (auto dest: pctOctet_shorter pctOctets_shorter)
  then show "(ya, C # cs) \<in> measure length" by simp
qed

text \<open>
  The key decoding of the streaming route: \<open>decodeURIComponent(key)\<close>, and once more when the
  result contains a percent sign.
\<close>

definition finalKeyOf :: "jsstring \<Rightarrow> error + jsstring" where
  "finalKeyOf key =
     (case decodeURIComponent key of
        Inl err \<Rightarrow> Inl err
      | Inr decodedKey \<Rightarrow>
          (if 37 \<in> set decodedKey then decodeURIComponent decodedKey else Inr decodedKey))"

section \<open>The streaming proxy\<close>

text \<open>
  The response of \<open>node-fetch\<close>, as far as the handler reads it: the status, three headers
  (\<open>null\<close> when absent), the body stream (\<open>null\<close> when there is none) and the body read
  as text (\<open>response.text()\<close>, which may fail).
\<close>

record Upstream =
  up_status :: nat
  up_contentType :: "jsstring option"
  up_contentLength :: "jsstring option"
  up_contentRange :: "jsstring option"
  up_body :: "jsstring option"
  up_text :: "error + jsstring"

text \<open>
  What the client receives: the status, the headers that the handler sets with
  \<open>setHeader\<close> (in the order of the calls), and either the piped upstream body or a JSON
  object with a message and, for some errors, a detail.
\<close>

datatype detail = ErrorText error | BodyText jsstring

datatype payload = Piped jsstring | Json jsstring "detail option"

record Reply =
  rp_status :: nat
  rp_headers :: "(jsstring \<times> jsstring) list"
  rp_payload :: payload

text \<open>
  The calls of the handler to its collaborators: the edge-CDN signer
  (\<open>cloudFrontService.getSignedUrl\<close>), the origin signer (\<open>s3Service.getSignedVideoUrl\<close>) and
  \<open>fetch\<close> with the URL and the forwarded \<open>Range\<close> header. Their answers are parameters and
  may depend on the calls made so far. \<open>cloudFrontAvailable\<close> is
  \<open>awsServices.cloudFrontService && process.env.AWS_CLOUDFRONT_DOMAIN\<close>.
\<close>

datatype call = SignEdge jsstring | SignOrigin jsstring | Fetch jsstring "jsstring option"

record proxyEnv =
  cloudFrontAvailable :: bool
  cloudFrontSign :: "call list \<Rightarrow> jsstring \<Rightarrow> error + jsstring"
  originSign :: "call list \<Rightarrow> jsstring \<Rightarrow> error + jsstring option"
  fetch :: "call list \<Rightarrow> jsstring \<Rightarrow> jsstring option \<Rightarrow> error + Upstream"

text \<open>
  \<open>finalKey.split('.').pop()?.toLowerCase()\<close>: the text after the last dot (the whole key
  when it has no dot), in lower case. Lower-casing is modelled on the ASCII letters; no other
  character lower-cases to a letter or digit of the extensions that the handler compares
  with, so every comparison below is exact.
\<close>

definition toLowerCase :: "jsstring \<Rightarrow> jsstring" where
  "toLowerCase s = map (\<lambda>c. if 65 \<le> c \<and> c \<le> 90 then c + 32 else c) s"

definition fileExtensionOf :: "jsstring \<Rightarrow> jsstring" where
  "fileExtensionOf finalKey = toLowerCase (rev (takeWhile (\<lambda>c. c \<noteq> 46) (rev finalKey)))"

definition contentTypeOf :: "jsstring \<Rightarrow> jsstring" where
  "contentTypeOf fileExtension =
     (if fileExtension = str ''png'' then str ''image/png''
      else if fileExtension = str ''jpg'' \<or> fileExtension = str ''jpeg'' then str ''image/jpeg''
      else if fileExtension = str ''mp4'' then str ''video/mp4''
      else if fileExtension = str ''m3u8'' then str ''application/vnd.apple.mpegurl''
      else if fileExtension = str ''ts'' then str ''video/mp2t''
      else str ''application/octet-stream'')"

definition corsHeaders :: "(jsstring \<times> jsstring) list" where
  "corsHeaders =
     [(str ''Access-Control-Allow-Origin'', str ''*''),
      (str ''Access-Control-Allow-Methods'', str ''GET, OPTIONS''),
      (str ''Access-Control-Allow-Headers'', str ''Range, Content-Type'')]"

text \<open>\<open>if (h) res.setHeader(name, h)\<close>: a header of the upstream response is copied when it is truthy.\<close>

definition copied :: "jsstring \<Rightarrow> jsstring option \<Rightarrow> (jsstring \<times> jsstring) list" where
  "copied name h = (case h of None \<Rightarrow> [] | Some v \<Rightarrow> if v = [] then [] else [(name, v)])"

definition contentTypeHeader :: "Upstream \<Rightarrow> jsstring \<Rightarrow> (jsstring \<times> jsstring) list" where
  "contentTypeHeader response contentType =
     [(str ''Content-Type'',
       (case up_contentType response of
          None \<Rightarrow> contentType
        | Some v \<Rightarrow> if v = [] then contentType else v))]"

definition jsonReply :: "nat \<Rightarrow> (jsstring \<times> jsstring) list \<Rightarrow> string \<Rightarrow> detail option \<Rightarrow> Reply" where
  "jsonReply status hs message d = \<lparr>rp_status = status, rp_headers = hs, rp_payload = Json (str message) d\<rparr>"

text \<open>
  Tier 1, the block \<open>// Try to use CloudFront if available\<close>. \<open>None\<close> means that the handler
  goes on to the origin tiers: the signer was not used, or the \<open>catch\<close> caught an error of
  the signer or of \<open>fetch\<close>. A response of \<open>fetch\<close> is relayed with its status, whatever
  the status is, and the handler returns.
\<close>

definition edgeTier :: "proxyEnv \<Rightarrow> jsstring \<Rightarrow> call list \<Rightarrow> Reply option \<times> call list" where
  "edgeTier e finalKey tr =
     (let fileExtension = fileExtensionOf finalKey; contentType = contentTypeOf fileExtension in
      if cloudFrontAvailable e
         \<and> (fileExtension = str ''m3u8'' \<or> fileExtension = str ''ts'' \<or> fileExtension = str ''mp4'')
      then
        (case cloudFrontSign e tr finalKey of
           Inl cloudFrontError \<Rightarrow> (None, tr @ [SignEdge finalKey])
         | Inr signedUrl \<Rightarrow>
             (let tr1 = tr @ [SignEdge finalKey]; tr2 = tr1 @ [Fetch signedUrl None] in
              case fetch e tr1 signedUrl None of
                Inl cloudFrontError \<Rightarrow> (None, tr2)
              | Inr response \<Rightarrow>
                  (let hs = corsHeaders @ contentTypeHeader response contentType in
                   case up_body response of
                     Some body \<Rightarrow>
                       (Some \<lparr>rp_status = up_status response, rp_headers = hs,
                              rp_payload = Piped body\<rparr>, tr2)
                   | None \<Rightarrow>
                       (Some (jsonReply 500 hs ''No response body from CloudFront'' None), tr2))))
      else (None, tr))"

text \<open>Tier 2, the block \<open>// For videos with range requests\<close>, once its condition holds.\<close>

definition rangeTier :: "proxyEnv \<Rightarrow> jsstring \<Rightarrow> jsstring \<Rightarrow> call list \<Rightarrow> (error + Reply) \<times> call list" where
  "rangeTier e finalKey rangeHeader tr =
     (let contentType = contentTypeOf (fileExtensionOf finalKey); tr1 = tr @ [SignOrigin finalKey] in
      case originSign e tr finalKey of
        Inl err \<Rightarrow> (Inl err, tr1)
      | Inr s \<Rightarrow>
          (case truthyStr s of
             None \<Rightarrow> (Inr (jsonReply 404 [] ''Content not found'' None), tr1)
           | Some signedUrl \<Rightarrow>
               (let tr2 = tr1 @ [Fetch signedUrl (Some rangeHeader)] in
                case fetch e tr1 signedUrl (Some rangeHeader) of
                  Inl err \<Rightarrow> (Inr (jsonReply 500 [] ''Error streaming video content'' None), tr2)
                | Inr response \<Rightarrow>
                    (let hs = corsHeaders
                              @ copied (str ''Content-Range'') (up_contentRange response)
                              @ copied (str ''Content-Length'') (up_contentLength response)
                              @ contentTypeHeader response contentType
                              @ [(str ''Accept-Ranges'', str ''bytes'')] in
                     case up_body response of
                       Some body \<Rightarrow>
                         (Inr \<lparr>rp_status = up_status response, rp_headers = hs,
                               rp_payload = Piped body\<rparr>, tr2)
                     | None \<Rightarrow> (Inr (jsonReply 500 hs ''No response body from S3'' None), tr2)))))"

text \<open>Tier 3, the block \<open>// For standard requests\<close>.\<close>

definition standardTier :: "proxyEnv \<Rightarrow> jsstring \<Rightarrow> call list \<Rightarrow> (error + Reply) \<times> call list" where
  "standardTier e finalKey tr =
     (let contentType = contentTypeOf (fileExtensionOf finalKey); tr1 = tr @ [SignOrigin finalKey] in
      case originSign e tr finalKey of
        Inl err \<Rightarrow> (Inl err, tr1)
      | Inr s \<Rightarrow>
          (case truthyStr s of
             None \<Rightarrow> (Inr (jsonReply 404 [] ''Content not found'' None), tr1)
           | Some signedUrl \<Rightarrow>
               (let tr2 = tr1 @ [Fetch signedUrl None] in
                case fetch e tr1 signedUrl None of
                  Inl err \<Rightarrow>
                    (Inr (jsonReply 500 [] ''Error streaming content'' (Some (ErrorText err))), tr2)
                | Inr response \<Rightarrow>
                    (if \<not> (200 \<le> up_status response \<and> up_status response \<le> 299) then
                       (case up_text response of
                          Inl err \<Rightarrow>
                            (Inr (jsonReply 500 [] ''Error streaming content'' (Some (ErrorText err))), tr2)
                        | Inr details \<Rightarrow>
                            (Inr \<lparr>rp_status = up_status response, rp_headers = [],
                                  rp_payload =
                                    Json (str ''S3 returned status '' @ showNat (up_status response))
                                      (Some (BodyText details))\<rparr>, tr2))
                     else
                       (let hs = corsHeaders
                                 @ copied (str ''Content-Length'') (up_contentLength response)
                                 @ contentTypeHeader response contentType
                                 @ [(str ''Cache-Control'', str ''public, max-age=31536000'')] in
                        case up_body response of
                          Some body \<Rightarrow>
                            (Inr \<lparr>rp_status = up_status response, rp_headers = hs,
                                  rp_payload = Piped body\<rparr>, tr2)
                        | None \<Rightarrow> (Inr (jsonReply 500 hs ''No response body from S3'' None), tr2))))))"

text \<open>The origin tiers: what the handler does after the edge tier has been passed.\<close>

definition originTiers :: "proxyEnv \<Rightarrow> jsstring \<Rightarrow> jsstring option \<Rightarrow> call list
    \<Rightarrow> (error + Reply) \<times> call list" where
  "originTiers e finalKey rangeHeader tr =
     (let fileExtension = fileExtensionOf finalKey in
      case truthyStr rangeHeader of
        Some r \<Rightarrow>
          (if fileExtension = str ''mp4'' \<or> fileExtension = str ''webm''
           then rangeTier e finalKey r tr else standardTier e finalKey tr)
      | None \<Rightarrow> standardTier e finalKey tr)"

text \<open>The outer \<open>catch\<close> of the handler.\<close>

definition outerCatch :: "(error + Reply) \<times> call list \<Rightarrow> Reply \<times> call list" where
  "outerCatch r =
     (case r of
        (Inl err, tr) \<Rightarrow> (jsonReply 500 [] ''Failed to stream content'' (Some (ErrorText err)), tr)
      | (Inr reply, tr) \<Rightarrow> (reply, tr))"

text \<open>
  The handler of \<open>GET /api/content/stream/:key\<close>. An error thrown outside the inner
  \<open>try\<close> blocks (a malformed escape in the key, a failing origin signer) reaches the outer
  \<open>catch\<close>, which answers 500.
\<close>

definition streamContent :: "proxyEnv \<Rightarrow> jsstring \<Rightarrow> jsstring option \<Rightarrow> call list \<Rightarrow> Reply \<times> call list" where
  "streamContent e key rangeHeader tr =
     (if key = [] then (jsonReply 400 [] ''Content key is required'' None, tr)
      else
        (case finalKeyOf key of
           Inl err \<Rightarrow> outerCatch (Inl err, tr)
         | Inr finalKey \<Rightarrow>
             (case edgeTier e finalKey tr of
                (Some reply, tr1) \<Rightarrow> (reply, tr1)
              | (None, tr1) \<Rightarrow> outerCatch (originTiers e finalKey rangeHeader tr1))))"

text \<open>Whether the edge tier serves the extension of a key.\<close>

definition usesEdge :: "jsstring \<Rightarrow> bool" where
  "usesEdge finalKey =
     (fileExtensionOf finalKey = str ''m3u8'' \<or> fileExtensionOf finalKey = str ''ts''
      \<or> fileExtensionOf finalKey = str ''mp4'')"

section \<open>What one refresh pass sees and builds\<close>

text \<open>
  Names for the intermediate values of the pass that starts at history \<open>tr\<close>: the listing it
  receives, the ids it meets in listing order, the groups of \<open>movieMap\<close>, the rows of the
  record store, and \<open>processedVideos\<close> as it stands after the first loop (the assets built
  from the bulk listing).
\<close>

definition listingIds :: "env \<Rightarrow> S3File list \<Rightarrow> jsstring list" where
  "listingIds e s3Videos =
     map mi_id (List.map_filter (\<lambda>file. extractMovieInfo e (orStr (s3_key file) [])) s3Videos)"

definition s3Listing :: "env \<Rightarrow> event list \<Rightarrow> S3File list" where
  "s3Listing e tr = (case listVideos e tr (str ''movies/'') of Inl err \<Rightarrow> [] | Inr s3Videos \<Rightarrow> s3Videos)"

definition movieGroups :: "env \<Rightarrow> event list \<Rightarrow> Movie list" where
  "movieGroups e tr = map snd (groupFiles e (s3Listing e tr))"

definition dynamoRows :: "env \<Rightarrow> event list \<Rightarrow> DynamoVideo list" where
  "dynamoRows e tr =
     (case getDynamoVideos e (tr @ [ListVideos (str ''movies/'')]) of
        Inr (Some ds) \<Rightarrow> ds
      | _ \<Rightarrow> [])"

definition s3Assets :: "env \<Rightarrow> event list \<Rightarrow> ProcessedVideo list" where
  "s3Assets e tr =
     (case fst (processS3 e (s3Listing e tr) (tr @ [ListVideos (str ''movies/''), GetAllVideos])) of
        Inl err \<Rightarrow> []
      | Inr processedVideos \<Rightarrow> processedVideos)"

text \<open>The invariant of \<open>movieMap\<close>: one entry per key, each holding the movie of that id.\<close>

definition movieMapOk :: "(jsstring \<times> Movie) list \<Rightarrow> bool" where
  "movieMapOk m = (distinct (map fst m) \<and> list_all (\<lambda>p. mv_id (snd p) = fst p) m)"

section \<open>Example inputs\<close>

text \<open>Concrete inputs at which the theorems below are instantiated.\<close>


definition sampleVideo :: "jsstring \<Rightarrow> bool \<Rightarrow> ProcessedVideo" where
  "sampleVideo i f =
     \<lparr>pv_id = i, pv_title = str ''T'', pv_description = str ''D'', pv_thumbnailUrl = None,
      pv_videoUrl = None, pv_hlsUrl = str ''movies/a.mp4'', pv_duration = 120, pv_releaseYear = 2023,
      pv_genre = str ''G'', pv_rating = str ''PG-13'', pv_featured = f, pv_category = str ''G'',
      pv_createdAt = DateAt 0\<rparr>"

definition failingEnv :: env where
  "failingEnv =
     \<lparr>development = False,
      extractMovieInfo = (\<lambda>k. None),
      listVideos = (\<lambda>tr p. Inl (Error (str ''down''))),
      getDynamoVideos = (\<lambda>tr. Inl (Error (str ''down''))),
      getSignedVideoUrl = (\<lambda>tr k. Inr (Some k)),
      putItem = (\<lambda>tr t i. None),
      clock = (\<lambda>tr. 100000),
      randomId = (\<lambda>tr. 7)\<rparr>"

definition staleState :: state where
  "staleState = \<lparr>videosCache = [sampleVideo (str ''7'') False, sampleVideo (str ''8'') True], lastCacheRefresh = 0\<rparr>"

definition freshState :: state where
  "freshState = \<lparr>videosCache = [sampleVideo (str ''7'') False, sampleVideo (str ''8'') True], lastCacheRefresh = 50000\<rparr>"

definition demoInfo :: "jsstring \<Rightarrow> MovieInfo option" where
  "demoInfo k =
     (if k = str ''movies/2.mp4'' then
        Some \<lparr>mi_id = str ''2'', mi_title = Str (str ''Two''), mi_genre = Str (str ''Drama''),
              mi_fileType = str ''mp4''\<rparr>
      else if k = str ''movies/1.mp4'' then
        Some \<lparr>mi_id = str ''1'', mi_title = Str (str ''One''), mi_genre = Str (str ''Action''),
              mi_fileType = str ''mp4''\<rparr>
      else if k = str ''movies/1.png'' then
        Some \<lparr>mi_id = str ''1'', mi_title = Str (str ''One''), mi_genre = Str (str ''Action''),
              mi_fileType = str ''png''\<rparr>
      else if k = str ''movies/3.png'' then
        Some \<lparr>mi_id = str ''3'', mi_title = Str (str ''Three''), mi_genre = Undefined,
              mi_fileType = str ''png''\<rparr>
      else None)"

definition demoFile :: "string \<Rightarrow> S3File" where
  "demoFile k = \<lparr>s3_key = Some (str k), s3_url = None\<rparr>"

definition demoListing :: "S3File list" where
  "demoListing = [demoFile ''movies/2.mp4'', demoFile ''movies/1.mp4'', demoFile ''movies/1.png'',
                  demoFile ''movies/3.png'']"

definition demoRow :: "string \<Rightarrow> jsstring option \<Rightarrow> bool option \<Rightarrow> DynamoVideo" where
  "demoRow i k f =
     \<lparr>dv_id = str i, dv_title = Some (str ''Record''), dv_description = None, dv_thumbnailKey = None,
      dv_videoKey = k, dv_duration = None, dv_releaseYear = None, dv_genre = None,
      dv_rating = None, dv_featured = f, dv_createdAt = None\<rparr>"

definition demoRows :: "DynamoVideo list" where
  "demoRows = [demoRow ''3'' (Some (str ''uploads/3.mp4'')) None,
               demoRow ''4'' None (Some True),
               demoRow ''1'' (Some (str ''uploads/1.mp4'')) None]"

definition demoEnv :: env where
  "demoEnv =
     \<lparr>development = True,
      extractMovieInfo = demoInfo,
      listVideos = (\<lambda>tr p. Inr demoListing),
      getDynamoVideos = (\<lambda>tr. Inr (Some demoRows)),
      getSignedVideoUrl = (\<lambda>tr k. Inr (Some (str ''https://signed/'' @ k))),
      putItem = (\<lambda>tr t i. None),
      clock = (\<lambda>tr. 100000),
      randomId = (\<lambda>tr. 7)\<rparr>"


definition demoMovie :: "string \<Rightarrow> string \<Rightarrow> string \<Rightarrow> MovieFile list \<Rightarrow> Movie" where
  "demoMovie i t g fs = \<lparr>mv_id = str i, mv_title = Str (str t), mv_genre = Str (str g), mv_files = fs\<rparr>"

definition demoMovieFile :: "string \<Rightarrow> string \<Rightarrow> MovieFile" where
  "demoMovieFile t k = \<lparr>mf_type = str t, mf_key = Some (str k), mf_url = None\<rparr>"

definition demoAsset2 :: ProcessedVideo where
  "demoAsset2 =
     fromMovie (demoMovie ''2'' ''Two'' ''Drama'' [demoMovieFile ''mp4'' ''movies/2.mp4''])
        None (demoMovieFile ''mp4'' ''movies/2.mp4'')
        (Some (str ''https://signed/movies/2.mp4'')) (DateAt 100000)"

definition demoAsset1 :: ProcessedVideo where
  "demoAsset1 =
     fromMovie (demoMovie ''1'' ''One'' ''Action''
                  [demoMovieFile ''mp4'' ''movies/1.mp4'', demoMovieFile ''png'' ''movies/1.png''])
        (Some (demoMovieFile ''png'' ''movies/1.png'')) (demoMovieFile ''mp4'' ''movies/1.mp4'')
        (Some (str ''https://signed/movies/1.mp4'')) (DateAt 100000)"

definition demoAsset3 :: ProcessedVideo where
  "demoAsset3 =
     fromDynamo (demoRow ''3'' (Some (str ''uploads/3.mp4'')) None)
        (Some (str ''https://signed/uploads/3.mp4'')) (DateAt 100000)"

definition demoAsset4 :: ProcessedVideo where
  "demoAsset4 = fromDynamo (demoRow ''4'' None (Some True)) None (DateAt 100000)"

definition demoGroup3 :: Movie where
  "demoGroup3 = \<lparr>mv_id = str ''3'', mv_title = Str (str ''Three''), mv_genre = Undefined,
                  mv_files = [demoMovieFile ''png'' ''movies/3.png'']\<rparr>"

definition demoCatalog :: "ProcessedVideo list" where
  "demoCatalog = [demoAsset2, demoAsset1, demoAsset3, demoAsset4]"

definition emptyState :: state where
  "emptyState = \<lparr>videosCache = [], lastCacheRefresh = 0\<rparr>"

definition bigIdState :: state where
  "bigIdState = \<lparr>videosCache = [sampleVideo (str ''9007199254740993'') False], lastCacheRefresh = 50000\<rparr>"

text \<open>The \<open>Video\<close> that a query returns for \<open>sampleVideo\<close>, field by field.\<close>

definition sampleView :: "number \<Rightarrow> bool \<Rightarrow> Video" where
  "sampleView i f =
     \<lparr>v_id = i, v_title = str ''T'', v_description = str ''D'', v_thumbnailUrl = [],
      v_videoUrl = [], v_hlsUrl = str ''movies/a.mp4'', v_duration = 120, v_releaseYear = 2023,
      v_genre = str ''G'', v_rating = str ''PG-13'', v_featured = f, v_category = str ''G'',
      v_createdAt = DateAt 0\<rparr>"

definition negativeIdState :: state where
  "negativeIdState = \<lparr>videosCache = [sampleVideo (str ''-5'') False], lastCacheRefresh = 50000\<rparr>"




definition okUpstream :: "nat \<Rightarrow> string \<Rightarrow> Upstream" where
  "okUpstream status body =
     \<lparr>up_status = status, up_contentType = Some (str ''video/mp4''), up_contentLength = None,
      up_contentRange = None, up_body = Some (str body), up_text = Inr (str body)\<rparr>"

definition edgeDownEnv :: proxyEnv where
  "edgeDownEnv =
     \<lparr>cloudFrontAvailable = True,
      cloudFrontSign = (\<lambda>tr k. Inl (Error (str ''no key pair''))),
      originSign = (\<lambda>tr k. Inr (Some (str ''https://origin/'' @ k))),
      fetch = (\<lambda>tr u r. Inr (okUpstream 200 ''bytes''))\<rparr>"

definition edgeDeniedEnv :: proxyEnv where
  "edgeDeniedEnv =
     \<lparr>cloudFrontAvailable = True,
      cloudFrontSign = (\<lambda>tr k. Inr (str ''https://edge/'' @ k)),
      originSign = (\<lambda>tr k. Inr (Some (str ''https://origin/'' @ k))),
      fetch = (\<lambda>tr u r. if take 13 u = str ''https://edge/'' then Inr (okUpstream 403 ''AccessDenied'')
                         else Inr (okUpstream 200 ''bytes''))\<rparr>"

section \<open>Properties of the refresh gate\<close>

declare showNat.simps [simp del]
declare bitLength.simps [simp del]

lemma orStr_empty: "orStr v [] = (case v of None \<Rightarrow> [] | Some s \<Rightarrow> s)"
  by (cases v) (simp_all add: orStr_def truthyStr_def)

lemmas parseInt_eval = parseInt_def stripSign_def isWhiteSpace_def isRadixDigit_def digitValue_def
  radixValue_def toNumber_def roundToDouble_def Let_def

lemma refreshPass_listing_fails:
  "listVideos e tr (str ''movies/'') = Inl err \<Longrightarrow> fst (refreshPass e tr) = Inl err"
  by (simp add: refreshPass_def)

lemma refreshPass_records_fail:
  "getDynamoVideos e (tr @ [ListVideos (str ''movies/'')]) = Inl err \<Longrightarrow>
   listVideos e tr (str ''movies/'') = Inr fs \<Longrightarrow> fst (refreshPass e tr) = Inl err"
  by (simp add: refreshPass_def)

lemma refreshCache_keeps_on_error:
  "fst (refreshPass e tr) = Inl err \<Longrightarrow> fst (refreshCache e st tr) = st"
  by (auto simp: refreshCache_def Let_def split: prod.splits sum.splits)

text \<open>
  C3. Within the TTL of 60 seconds (60000 ms) and with a non-empty cache, \<open>refreshCache\<close>
  returns at once: the state is unchanged and the history gains no event, so neither
  backing source (nor the signer, nor the record store) is called.
\<close>

theorem refreshCache_within_ttl:
  assumes "clock e tr - lastCacheRefresh st < 60000" and "videosCache st \<noteq> []"
  shows "refreshCache e st tr = (st, tr)"
  using assms by (simp add: refreshCache_def CACHE_TTL_def)

theorem refreshCache_within_ttl_witness:
  "clock failingEnv [] - lastCacheRefresh freshState < 60000
   \<and> refreshCache failingEnv freshState [] = (freshState, [])"
proof -
  have a: "clock failingEnv [] - lastCacheRefresh freshState < 60000"
    by (simp add: failingEnv_def freshState_def)
  have b: "videosCache freshState \<noteq> []"
    by (simp add: freshState_def)
  from refreshCache_within_ttl [OF a b] a show ?thesis by simp
qed

text \<open>
  C1. When the listing fetch fails, or the record fetch fails, or the pass throws at any later
  point before the cache update (a failing signer), \<open>refreshCache\<close> leaves the state, that
  is both \<open>videosCache\<close> and \<open>lastCacheRefresh\<close>, exactly as it was, and the reads that
  ran this refresh (single lookup, recommendations, featured) are served from the previous
  snapshot.
\<close>

theorem refreshCache_stale_on_error:
  assumes "listVideos e tr (str ''movies/'') = Inl err
         \<or> (\<exists>s3Videos. listVideos e tr (str ''movies/'') = Inr s3Videos
               \<and> getDynamoVideos e (tr @ [ListVideos (str ''movies/'')]) = Inl err)
         \<or> fst (refreshPass e tr) = Inl err"
  shows "fst (refreshCache e st tr) = st
       \<and> fst (getVideoById e videoId st tr)
           = map_option toVideo (find (\<lambda>v. strictEq (parseInt (pv_id v)) videoId) (videosCache st))
       \<and> fst (getRecommendedVideos e draws userId st tr) = withMatches draws 0 (videosCache st)
       \<and> fst (getFeaturedContent e userId st tr)
           = (case featuredOrFirst (videosCache st) of
                None \<Rightarrow> Inl (Error (str ''No videos available''))
              | Some v \<Rightarrow> Inr \<lparr>fc_video = toVideo v, fc_match = 95\<rparr>)"
proof -
  from assms have fails: "fst (refreshPass e tr) = Inl err"
    using refreshPass_listing_fails [of e tr err] refreshPass_records_fail [of e tr err]
    by blast
  have keep: "fst (refreshCache e st tr) = st"
    using fails by (rule refreshCache_keeps_on_error)
  then obtain tr1 where r: "refreshCache e st tr = (st, tr1)"
    by (cases "refreshCache e st tr") simp
  have byId: "fst (getVideoById e videoId st tr)
           = map_option toVideo (find (\<lambda>v. strictEq (parseInt (pv_id v)) videoId) (videosCache st))"
    by (simp add: getVideoById_def r split: option.splits)
  have rec: "fst (getRecommendedVideos e draws userId st tr) = withMatches draws 0 (videosCache st)"
    by (simp add: getRecommendedVideos_def r)
  have feat: "fst (getFeaturedContent e userId st tr)
           = (case featuredOrFirst (videosCache st) of
                None \<Rightarrow> Inl (Error (str ''No videos available''))
              | Some v \<Rightarrow> Inr \<lparr>fc_video = toVideo v, fc_match = 95\<rparr>)"
    by (simp add: getFeaturedContent_def r split: option.splits)
  from keep byId rec feat show ?thesis by simp
qed

theorem refreshCache_stale_on_error_witness:
  "listVideos failingEnv [] (str ''movies/'') = Inl (Error (str ''down''))
   \<and> getDynamoVideos failingEnv [ListVideos (str ''movies/'')] = Inl (Error (str ''down''))
   \<and> \<not> (clock failingEnv [] - lastCacheRefresh staleState < CACHE_TTL)
   \<and> fst (refreshCache failingEnv staleState []) = staleState
   \<and> fst (getFeaturedContent failingEnv 1 staleState [])
       = Inr \<lparr>fc_video = toVideo (sampleVideo (str ''8'') True), fc_match = 95\<rparr>"
proof -
  have l: "listVideos failingEnv [] (str ''movies/'') = Inl (Error (str ''down''))"
    by (simp add: failingEnv_def)
  have "featuredOrFirst (videosCache staleState) = Some (sampleVideo (str ''8'') True)"
    by (simp add: featuredOrFirst_def staleState_def sampleVideo_def)
  with refreshCache_stale_on_error [OF disjI1, OF l, of staleState NaN "\<lambda>k. 0" 1]
  show ?thesis
    by (simp add: failingEnv_def staleState_def CACHE_TTL_def)
qed

section \<open>Properties of the merge\<close>

lemma pushFile_fst: "map fst (pushFile k f m) = map fst m"
  by (induction m) auto

lemma pushFile_ids: "map (\<lambda>p. mv_id (snd p)) (pushFile k f m) = map (\<lambda>p. mv_id (snd p)) m"
  by (induction m) auto

lemma pushFile_ok: "movieMapOk m \<Longrightarrow> movieMapOk (pushFile k f m)"
proof -
  assume ok: "movieMapOk m"
  have "list_all (\<lambda>p. mv_id (snd p) = fst p) m \<Longrightarrow> list_all (\<lambda>p. mv_id (snd p) = fst p) (pushFile k f m)"
    by (induction m) auto
  with ok show ?thesis by (simp add: movieMapOk_def pushFile_fst)
qed

lemma groupFile_ok: "movieMapOk m \<Longrightarrow> movieMapOk (groupFile e m file)"
proof (cases "extractMovieInfo e (orStr (s3_key file) [])")
  case None
  assume "movieMapOk m"
  with None show ?thesis by (simp add: groupFile_def)
next
  case (Some mi)
  assume ok: "movieMapOk m"
  have "movieMapOk (if \<not> mapHas m (mi_id mi)
                  then m @ [(mi_id mi, \<lparr>mv_id = mi_id mi, mv_title = mi_title mi,
                                              mv_genre = mi_genre mi, mv_files = []\<rparr>)]
                  else m)"
    using ok by (auto simp: movieMapOk_def mapHas_def list_ex_iff)
  then show ?thesis using Some by (simp add: groupFile_def Let_def pushFile_ok)
qed

lemma foldl_groupFile_ok: "movieMapOk m \<Longrightarrow> movieMapOk (foldl (groupFile e) m fs)"
  by (induction fs arbitrary: m) (auto simp: groupFile_ok)

lemma groupFiles_ok: "movieMapOk (groupFiles e fs)"
  unfolding groupFiles_def by (rule foldl_groupFile_ok) (simp add: movieMapOk_def)

lemma groupFiles_distinct_ids: "distinct (map mv_id (map snd (groupFiles e fs)))"
proof -
  have ok: "movieMapOk (groupFiles e fs)" by (rule groupFiles_ok)
  then have "\<forall>p \<in> set (groupFiles e fs). mv_id (snd p) = fst p"
    by (simp add: movieMapOk_def list_all_iff)
  then have "map (\<lambda>p. mv_id (snd p)) (groupFiles e fs) = map fst (groupFiles e fs)"
    by (intro map_cong) auto
  moreover have "map mv_id (map snd (groupFiles e fs)) = map (\<lambda>p. mv_id (snd p)) (groupFiles e fs)"
    by simp
  ultimately show ?thesis using ok by (simp only: movieMapOk_def)
qed

text \<open>The assets that the first loop appends.\<close>

lemma processMovies_appends:
  "processMovies e ms acc tr = (Inr out, tr') \<Longrightarrow>
     \<exists>new. out = acc @ new
        \<and> map pv_id new = map mv_id (filter (\<lambda>m. videoOf m \<noteq> None) ms)
        \<and> (\<forall>v \<in> set new. \<exists>m \<in> set ms. \<exists>vf url now.
               videoOf m = Some vf \<and> v = fromMovie m (thumbnailOf m) vf url now)"
proof (induction ms arbitrary: acc tr)
  case Nil
  then show ?case by simp
next
  case (Cons m ms)
  show ?case
  proof (cases "videoOf m")
    case None
    with Cons.prems have "processMovies e ms acc tr = (Inr out, tr')" by simp
    from Cons.IH [OF this] None show ?thesis by auto
  next
    case (Some vf)
    obtain r tr1 where s: "signIfKey e (mf_key vf) tr = (r, tr1)"
      by (cases "signIfKey e (mf_key vf) tr") auto
    show ?thesis
    proof (cases r)
      case (Inl err)
      with Cons.prems Some s show ?thesis by simp
    next
      case (Inr url)
      let ?pv = "fromMovie m (thumbnailOf m) vf url (DateAt (clock e tr1))"
      let ?tr2 = "mirror e (itemOfMovie ?pv (thumbnailOf m) vf (DateAt (clock e tr1))) tr1"
      from Cons.prems Some s Inr
      have "processMovies e ms (acc @ [?pv]) ?tr2 = (Inr out, tr')" by (simp add: Let_def)
      from Cons.IH [OF this] obtain new where
        n: "out = (acc @ [?pv]) @ new"
           "map pv_id new = map mv_id (filter (\<lambda>m. videoOf m \<noteq> None) ms)"
           "\<forall>v \<in> set new. \<exists>m \<in> set ms. \<exists>vf url now.
               videoOf m = Some vf \<and> v = fromMovie m (thumbnailOf m) vf url now"
        by blast
      have id: "pv_id ?pv = mv_id m" by (simp add: fromMovie_def)
      show ?thesis
      proof (intro exI [of _ "?pv # new"] conjI)
        show "out = acc @ ?pv # new" using n(1) by simp
        show "map pv_id (?pv # new) = map mv_id (filter (\<lambda>m. videoOf m \<noteq> None) (m # ms))"
          using n(2) Some id by simp
        show "\<forall>v \<in> set (?pv # new). \<exists>m \<in> set (m # ms). \<exists>vf url now.
               videoOf m = Some vf \<and> v = fromMovie m (thumbnailOf m) vf url now"
          using n(3) Some by (metis insert_iff list.set(2))
      qed
    qed
  qed
qed

lemma mergeDynamo_appends:
  "mergeDynamo e ds acc tr = (Inr out, tr') \<Longrightarrow>
     \<exists>new. out = acc @ new
        \<and> (distinct (map pv_id acc) \<longrightarrow> distinct (map pv_id out))
        \<and> (\<forall>v \<in> set new. \<exists>d \<in> set ds. \<exists>url now.
               v = fromDynamo d url now \<and> dv_id d \<notin> pv_id ` set acc
               \<and> (truthyStr (dv_videoKey d) = None \<longrightarrow> url = None))
        \<and> (\<forall>d \<in> set ds. dv_id d \<in> pv_id ` set out)"
proof (induction ds arbitrary: acc tr)
  case Nil
  then show ?case by simp
next
  case (Cons d ds)
  show ?case
  proof (cases "list_ex (\<lambda>v. pv_id v = dv_id d) acc")
    case True
    with Cons.prems have "mergeDynamo e ds acc tr = (Inr out, tr')" by simp
    from Cons.IH [OF this] obtain new where
      n: "out = acc @ new" "distinct (map pv_id acc) \<longrightarrow> distinct (map pv_id out)"
         "\<forall>v \<in> set new. \<exists>d \<in> set ds. \<exists>url now. v = fromDynamo d url now \<and> dv_id d \<notin> pv_id ` set acc
             \<and> (truthyStr (dv_videoKey d) = None \<longrightarrow> url = None)"
         "\<forall>d \<in> set ds. dv_id d \<in> pv_id ` set out"
      by blast
    from True obtain v0 where "v0 \<in> set acc" "pv_id v0 = dv_id d"
      by (auto simp: list_ex_iff)
    then have "dv_id d \<in> pv_id ` set acc" by (metis imageI)
    then have "dv_id d \<in> pv_id ` set out" using n(1) by auto
    with n show ?thesis by auto
  next
    case False
    obtain r tr1 where s: "signIfKey e (dv_videoKey d) tr = (r, tr1)"
      by (cases "signIfKey e (dv_videoKey d) tr") auto
    show ?thesis
    proof (cases r)
      case (Inl err)
      with Cons.prems False s show ?thesis by simp
    next
      case (Inr url)
      let ?pv = "fromDynamo d url (DateAt (clock e tr1))"
      from Cons.prems False s Inr
      have "mergeDynamo e ds (acc @ [?pv]) tr1 = (Inr out, tr')" by simp
      from Cons.IH [OF this] obtain new where
        n: "out = (acc @ [?pv]) @ new"
           "distinct (map pv_id (acc @ [?pv])) \<longrightarrow> distinct (map pv_id out)"
           "\<forall>v \<in> set new. \<exists>d \<in> set ds. \<exists>url now.
              v = fromDynamo d url now \<and> dv_id d \<notin> pv_id ` set (acc @ [?pv])
              \<and> (truthyStr (dv_videoKey d) = None \<longrightarrow> url = None)"
           "\<forall>d \<in> set ds. dv_id d \<in> pv_id ` set out"
        by blast
      have id: "pv_id ?pv = dv_id d" by (simp add: fromDynamo_def)
      from False have "\<forall>v \<in> set acc. pv_id v \<noteq> dv_id d" by (simp add: list_ex_iff)
      then have notin: "dv_id d \<notin> pv_id ` set acc" by (auto simp: image_iff)
      show ?thesis
      proof (intro exI [of _ "?pv # new"] conjI)
        show "out = acc @ ?pv # new" using n(1) by simp
        show "distinct (map pv_id acc) \<longrightarrow> distinct (map pv_id out)"
          using n(2) id notin by auto
        show "\<forall>v \<in> set (?pv # new). \<exists>d \<in> set (d # ds). \<exists>url now.
               v = fromDynamo d url now \<and> dv_id d \<notin> pv_id ` set acc
               \<and> (truthyStr (dv_videoKey d) = None \<longrightarrow> url = None)"
        proof
          fix v assume "v \<in> set (?pv # new)"
          then consider "v = ?pv" | "v \<in> set new" by auto
          then show "\<exists>d \<in> set (d # ds). \<exists>url now.
               v = fromDynamo d url now \<and> dv_id d \<notin> pv_id ` set acc
               \<and> (truthyStr (dv_videoKey d) = None \<longrightarrow> url = None)"
          proof cases
            case 1
            from s Inr have "truthyStr (dv_videoKey d) = None \<longrightarrow> url = None"
              by (auto simp: signIfKey_def)
            with 1 notin have "d \<in> set (d # ds) \<and> v = fromDynamo d url (DateAt (clock e tr1))
                \<and> dv_id d \<notin> pv_id ` set acc
                \<and> (truthyStr (dv_videoKey d) = None \<longrightarrow> url = None)"
              by simp
            then show ?thesis
              by (intro bexI [of _ d] exI [of _ url] exI [of _ "DateAt (clock e tr1)"]) simp_all
          next
            case 2
            with n(3) obtain d' url' now' where
              d': "d' \<in> set ds" "v = fromDynamo d' url' now'" "dv_id d' \<notin> pv_id ` set (acc @ [?pv])"
                "truthyStr (dv_videoKey d') = None \<longrightarrow> url' = None"
              by (auto dest!: bspec)
            from d'(3) have "dv_id d' \<notin> pv_id ` set acc" by auto
            with d'(1,2,4) have "d' \<in> set (d # ds) \<and> v = fromDynamo d' url' now'
                \<and> dv_id d' \<notin> pv_id ` set acc
                \<and> (truthyStr (dv_videoKey d') = None \<longrightarrow> url' = None)"
              by simp
            then show ?thesis by (intro bexI [of _ d'] exI [of _ url'] exI [of _ now']) simp_all
          qed
        qed
        show "\<forall>d \<in> set (d # ds). dv_id d \<in> pv_id ` set out"
          using n(4) n(1) id by auto
      qed
    qed
  qed
qed

lemma filter_same_key:
  "distinct (map f xs) \<Longrightarrow> v \<in> set xs \<Longrightarrow> filter (\<lambda>x. f x = f v) xs = [v]"
proof (induction xs)
  case Nil
  then show ?case by simp
next
  case (Cons x xs)
  show ?case
  proof (cases "x = v")
    case True
    with Cons.prems have "f v \<notin> f ` set xs" by simp
    then have "\<forall>y \<in> set xs. f y \<noteq> f v" by (metis imageI)
    then have "filter (\<lambda>x. f x = f v) xs = []" by (simp add: filter_empty_conv)
    with True show ?thesis by simp
  next
    case False
    with Cons.prems have "v \<in> set xs" "f x \<noteq> f v" by auto
    with Cons show ?thesis by simp
  qed
qed

lemma refreshPass_success:
  assumes "refreshPass e tr = (Inr catalog, tr')"
  shows "\<exists>tr3 new. processS3 e (s3Listing e tr) (tr @ [ListVideos (str ''movies/''), GetAllVideos])
                      = (Inr (s3Assets e tr), tr3)
           \<and> catalog = s3Assets e tr @ new
           \<and> (distinct (map pv_id (s3Assets e tr)) \<longrightarrow> distinct (map pv_id catalog))
           \<and> (\<forall>v \<in> set new. \<exists>d \<in> set (dynamoRows e tr). \<exists>url now.
                  v = fromDynamo d url now \<and> dv_id d \<notin> pv_id ` set (s3Assets e tr)
                  \<and> (truthyStr (dv_videoKey d) = None \<longrightarrow> url = None))
           \<and> (\<forall>d \<in> set (dynamoRows e tr). dv_id d \<in> pv_id ` set catalog)"
proof -
  let ?L = "str ''movies/''"
  from assms obtain fs where l: "listVideos e tr ?L = Inr fs"
    by (cases "listVideos e tr ?L") (auto simp: refreshPass_def)
  from assms l obtain dvs where g: "getDynamoVideos e (tr @ [ListVideos ?L]) = Inr dvs"
    by (cases "getDynamoVideos e (tr @ [ListVideos ?L])") (auto simp: refreshPass_def)
  obtain r tr3 where p: "processS3 e fs (tr @ [ListVideos ?L, GetAllVideos]) = (r, tr3)"
    by (cases "processS3 e fs (tr @ [ListVideos ?L, GetAllVideos])") auto
  from assms l g p obtain pvs where r: "r = Inr pvs"
    by (cases r) (auto simp: refreshPass_def)
  have sl: "s3Listing e tr = fs" using l by (simp add: s3Listing_def)
  have sa: "s3Assets e tr = pvs" using p r sl by (simp add: s3Assets_def)
  have ps: "processS3 e (s3Listing e tr) (tr @ [ListVideos ?L, GetAllVideos]) = (Inr (s3Assets e tr), tr3)"
    using p r sl sa by simp
  show ?thesis
  proof (cases dvs)
    case None
    with assms l g p r have "catalog = pvs" by (simp add: refreshPass_def)
    moreover from None g have "dynamoRows e tr = []" by (simp add: dynamoRows_def)
    ultimately show ?thesis using ps sa by auto
  next
    case (Some ds)
    with assms l g p r have m: "mergeDynamo e ds pvs tr3 = (Inr catalog, tr')"
      by (simp add: refreshPass_def)
    from Some g have dr: "dynamoRows e tr = ds" by (simp add: dynamoRows_def)
    from mergeDynamo_appends [OF m] ps sa dr show ?thesis by auto
  qed
qed

lemma mergeDynamo_rows:
  "mergeDynamo e ds acc tr = (Inr out, tr') \<Longrightarrow>
     \<forall>v \<in> set (drop (length acc) out). \<exists>d url h h1.
        find (\<lambda>r. dv_id r = pv_id v) ds = Some d
        \<and> signIfKey e (dv_videoKey d) h = (Inr url, h1)
        \<and> v = fromDynamo d url (DateAt (clock e h1))
        \<and> pv_id v \<notin> pv_id ` set acc"
proof (induction ds arbitrary: acc tr)
  case Nil
  then show ?case by simp
next
  case (Cons d ds)
  show ?case
  proof (cases "list_ex (\<lambda>v. pv_id v = dv_id d) acc")
    case True
    with Cons.prems have m: "mergeDynamo e ds acc tr = (Inr out, tr')" by simp
    from True obtain v0 where "v0 \<in> set acc" "pv_id v0 = dv_id d"
      by (auto simp: list_ex_iff)
    then have din: "dv_id d \<in> pv_id ` set acc" by (metis imageI)
    show ?thesis
    proof
      fix v assume "v \<in> set (drop (length acc) out)"
      with Cons.IH [OF m] obtain d' url h h1 where
        f: "find (\<lambda>r. dv_id r = pv_id v) ds = Some d'"
        and s: "signIfKey e (dv_videoKey d') h = (Inr url, h1)"
        and v: "v = fromDynamo d' url (DateAt (clock e h1))"
        and n: "pv_id v \<notin> pv_id ` set acc"
        by (auto dest!: bspec)
      from din n have "dv_id d \<noteq> pv_id v" by auto
      with f have "find (\<lambda>r. dv_id r = pv_id v) (d # ds) = Some d'" by simp
      with s v n show "\<exists>d' url h h1.
        find (\<lambda>r. dv_id r = pv_id v) (d # ds) = Some d'
        \<and> signIfKey e (dv_videoKey d') h = (Inr url, h1)
        \<and> v = fromDynamo d' url (DateAt (clock e h1))
        \<and> pv_id v \<notin> pv_id ` set acc"
        by (intro exI [of _ d'] exI [of _ url] exI [of _ h] exI [of _ h1]) simp
    qed
  next
    case False
    obtain r tr1 where s: "signIfKey e (dv_videoKey d) tr = (r, tr1)"
      by (cases "signIfKey e (dv_videoKey d) tr") auto
    show ?thesis
    proof (cases r)
      case (Inl err)
      with Cons.prems False s show ?thesis by simp
    next
      case (Inr url)
      let ?pv = "fromDynamo d url (DateAt (clock e tr1))"
      from Cons.prems False s Inr
      have m: "mergeDynamo e ds (acc @ [?pv]) tr1 = (Inr out, tr')" by simp
      from mergeDynamo_appends [OF m] obtain new where o: "out = (acc @ [?pv]) @ new" by blast
      have id: "pv_id ?pv = dv_id d" by (simp add: fromDynamo_def)
      from False have "\<forall>v \<in> set acc. pv_id v \<noteq> dv_id d" by (simp add: list_ex_iff)
      then have notin: "dv_id d \<notin> pv_id ` set acc" by (auto simp: image_iff)
      have dr: "drop (length acc) out = ?pv # new" using o by simp
      have dr2: "drop (length (acc @ [?pv])) out = new" using o by simp
      show ?thesis
      proof
        fix v assume "v \<in> set (drop (length acc) out)"
        then consider "v = ?pv" | "v \<in> set new" using dr by auto
        then show "\<exists>d' url h h1.
            find (\<lambda>r. dv_id r = pv_id v) (d # ds) = Some d'
            \<and> signIfKey e (dv_videoKey d') h = (Inr url, h1)
            \<and> v = fromDynamo d' url (DateAt (clock e h1))
            \<and> pv_id v \<notin> pv_id ` set acc"
        proof cases
          case 1
          have a: "find (\<lambda>r. dv_id r = pv_id v) (d # ds) = Some d" using 1 id by simp
          have b: "signIfKey e (dv_videoKey d) tr = (Inr url, tr1)" using s Inr by simp
          have c: "pv_id v \<notin> pv_id ` set acc" using 1 id notin by simp
          from a b c 1 show ?thesis
            by (intro exI [of _ d] exI [of _ url] exI [of _ tr] exI [of _ tr1]) simp
        next
          case 2
          then have "v \<in> set (drop (length (acc @ [?pv])) out)" using dr2 by simp
          with Cons.IH [OF m] obtain d' url' h h1 where
            f: "find (\<lambda>r. dv_id r = pv_id v) ds = Some d'"
            and s': "signIfKey e (dv_videoKey d') h = (Inr url', h1)"
            and v: "v = fromDynamo d' url' (DateAt (clock e h1))"
            and n: "pv_id v \<notin> pv_id ` set (acc @ [?pv])"
            by (auto dest!: bspec)
          from n id have ne: "dv_id d \<noteq> pv_id v" by auto
          from n have n': "pv_id v \<notin> pv_id ` set acc" by auto
          from f ne have "find (\<lambda>r. dv_id r = pv_id v) (d # ds) = Some d'" by simp
          with s' v n' show ?thesis
            by (intro exI [of _ d'] exI [of _ url'] exI [of _ h] exI [of _ h1]) simp
        qed
      qed
    qed
  qed
qed

lemma refreshPass_rows:
  assumes "refreshPass e tr = (Inr catalog, tr')"
  shows "\<forall>v \<in> set (drop (length (s3Assets e tr)) catalog). \<exists>d url h h1.
           find (\<lambda>r. dv_id r = pv_id v) (dynamoRows e tr) = Some d
           \<and> signIfKey e (dv_videoKey d) h = (Inr url, h1)
           \<and> v = fromDynamo d url (DateAt (clock e h1))"
proof -
  let ?L = "str ''movies/''"
  from assms obtain fs where l: "listVideos e tr ?L = Inr fs"
    by (cases "listVideos e tr ?L") (auto simp: refreshPass_def)
  from assms l obtain dvs where g: "getDynamoVideos e (tr @ [ListVideos ?L]) = Inr dvs"
    by (cases "getDynamoVideos e (tr @ [ListVideos ?L])") (auto simp: refreshPass_def)
  obtain r tr3 where p: "processS3 e fs (tr @ [ListVideos ?L, GetAllVideos]) = (r, tr3)"
    by (cases "processS3 e fs (tr @ [ListVideos ?L, GetAllVideos])") auto
  from assms l g p obtain pvs where r: "r = Inr pvs"
    by (cases r) (auto simp: refreshPass_def)
  have sl: "s3Listing e tr = fs" using l by (simp add: s3Listing_def)
  have sa: "s3Assets e tr = pvs" using p r sl by (simp add: s3Assets_def)
  show ?thesis
  proof (cases dvs)
    case None
    with assms l g p r have "catalog = pvs" by (simp add: refreshPass_def)
    with sa show ?thesis by simp
  next
    case (Some ds)
    with assms l g p r have m: "mergeDynamo e ds pvs tr3 = (Inr catalog, tr')"
      by (simp add: refreshPass_def)
    from Some g have dr: "dynamoRows e tr = ds" by (simp add: dynamoRows_def)
    from mergeDynamo_rows [OF m] show ?thesis unfolding sa dr by blast
  qed
qed

lemma s3Assets_ids:
  assumes "processS3 e (s3Listing e tr) tr2 = (Inr pvs, tr3)"
  shows "map pv_id pvs = map mv_id (filter (\<lambda>m. videoOf m \<noteq> None) (movieGroups e tr))"
    and "\<forall>v \<in> set pvs. \<exists>m \<in> set (movieGroups e tr). \<exists>vf url now.
               videoOf m = Some vf \<and> v = fromMovie m (thumbnailOf m) vf url now"
  using processMovies_appends [of e "movieGroups e tr" "[]" tr2 pvs tr3] assms
  by (auto simp: processS3_def movieGroups_def)

lemma movieGroups_distinct: "distinct (map mv_id (movieGroups e tr))"
  unfolding movieGroups_def by (rule groupFiles_distinct_ids)

lemma s3Assets_distinct:
  assumes "processS3 e (s3Listing e tr) tr2 = (Inr pvs, tr3)"
  shows "distinct (map pv_id pvs)"
  using s3Assets_ids(1) [OF assms] movieGroups_distinct [of e tr]
  by (simp add: distinct_map_filter)

lemma filter_key_le_one: "distinct (map f xs) \<Longrightarrow> length (filter (\<lambda>x. f x = k) xs) \<le> 1"
proof (induction xs)
  case Nil
  then show ?case by simp
next
  case (Cons x xs)
  show ?case
  proof (cases "f x = k")
    case True
    with Cons.prems have "k \<notin> f ` set xs" by auto
    then have "\<forall>y \<in> set xs. f y \<noteq> k" by (auto simp: image_iff)
    then have "filter (\<lambda>x. f x = k) xs = []" by (simp add: filter_empty_conv)
    with True show ?thesis by simp
  next
    case False
    with Cons show ?thesis by simp
  qed
qed

lemma videoOf_type: "videoOf m = Some vf \<Longrightarrow> mf_type vf = str ''mp4''"
  unfolding videoOf_def by (auto simp: find_Some_iff)

lemma dropped_id:
  "distinct (map f xs) \<Longrightarrow> m \<in> set xs \<Longrightarrow> \<not> P m \<Longrightarrow> f m \<notin> set (map f (filter P xs))"
proof (induction xs)
  case Nil
  then show ?case by simp
next
  case (Cons x xs)
  show ?case
  proof (cases "m = x")
    case True
    with Cons.prems have "f m \<notin> f ` set xs" by simp
    then have "f m \<notin> f ` set (filter P xs)" by (auto simp: image_iff)
    with True Cons.prems(3) show ?thesis by simp
  next
    case False
    with Cons.prems have mx: "m \<in> set xs" and dx: "distinct (map f xs)" by auto
    from Cons.IH [OF dx mx Cons.prems(3)] have a: "f m \<notin> set (map f (filter P xs))" .
    from mx Cons.prems(1) have "f x \<noteq> f m" by (auto simp: image_iff)
    with a show ?thesis by auto
  qed
qed

text \<open>The pass evaluated on the example sources.\<close>

lemma demo_listing: "s3Listing demoEnv [] = demoListing"
  by (simp add: s3Listing_def demoEnv_def)

lemma demo_rows: "dynamoRows demoEnv [] = demoRows"
  by (simp add: dynamoRows_def demoEnv_def)

lemma demo_listingIds: "listingIds demoEnv demoListing = [str ''2'', str ''1'', str ''1'', str ''3'']"
  by code_simp

lemma demo_groups:
  "movieGroups demoEnv [] =
     [demoMovie ''2'' ''Two'' ''Drama'' [demoMovieFile ''mp4'' ''movies/2.mp4''],
      demoMovie ''1'' ''One'' ''Action''
        [demoMovieFile ''mp4'' ''movies/1.mp4'', demoMovieFile ''png'' ''movies/1.png''],
      demoGroup3]"
  by code_simp

lemma demo_pass: "fst (refreshPass demoEnv []) = Inr demoCatalog"
  by code_simp

lemma demo_s3Assets: "s3Assets demoEnv [] = [demoAsset2, demoAsset1]"
  by code_simp

lemma demo_ids: "map pv_id demoCatalog = [str ''2'', str ''1'', str ''3'', str ''4'']"
  by code_simp

lemma fromDynamo_fields:
  "fromDynamo = (\<lambda>d url now.
                \<lparr>pv_id = dv_id d,
                 pv_title = orStr (dv_title d) (str ''Untitled''),
                 pv_description = orStr (dv_description d) (str ''No description''),
                 pv_thumbnailUrl = truthyStr (dv_thumbnailKey d),
                 pv_videoUrl = url,
                 pv_hlsUrl = orStr (dv_videoKey d) [],
                 pv_duration = orNum (dv_duration d) 0,
                 pv_releaseYear = orNum (dv_releaseYear d) 2023,
                 pv_genre = orStr (dv_genre d) (str ''Unknown''),
                 pv_rating = orStr (dv_rating d) (str ''PG-13''),
                 pv_featured = orBool (dv_featured d) False,
                 pv_category = orStr (dv_genre d) (str ''General''),
                 pv_createdAt = (case truthyStr (dv_createdAt d) of
                                   None \<Rightarrow> now | Some s \<Rightarrow> DateParsed s)\<rparr>)"
  by (intro ext) (simp add: fromDynamo_def)

lemma signIfKey_cases:
  "signIfKey e k h = (Inr url, h1) \<Longrightarrow>
     (case truthyStr k of
        None \<Rightarrow> url = None \<and> h1 = h
      | Some key \<Rightarrow> getSignedVideoUrl e h key = Inr url \<and> h1 = h @ [GetSignedVideoUrl key])"
  by (auto simp: signIfKey_def split: option.splits)

text \<open>
  C2 (as amended). In the catalog of a successful pass no id occurs twice, and the assets built
  from the bulk listing come first: their ids are the ids of the groups that have a video file,
  in listing order. For every id for which the bulk listing built an asset the catalog's
  entries of that id are exactly that asset, so a record-store row of the same id is never
  used. For every other id of the record store - in particular an id whose bulk-listing group
  has no video file - the catalog's entries of that id are exactly the asset built, with the
  fields listed, from the first row of that id, its URL being what the signer answered for the
  row's video key (none without a key) and its default date the clock after that call.
\<close>

theorem merge_precedence:
  assumes "refreshPass e tr = (Inr catalog, tr')"
  shows "let rowAsset = (\<lambda>d url now.
                \<lparr>pv_id = dv_id d,
                 pv_title = orStr (dv_title d) (str ''Untitled''),
                 pv_description = orStr (dv_description d) (str ''No description''),
                 pv_thumbnailUrl = truthyStr (dv_thumbnailKey d),
                 pv_videoUrl = url,
                 pv_hlsUrl = orStr (dv_videoKey d) [],
                 pv_duration = orNum (dv_duration d) 0,
                 pv_releaseYear = orNum (dv_releaseYear d) 2023,
                 pv_genre = orStr (dv_genre d) (str ''Unknown''),
                 pv_rating = orStr (dv_rating d) (str ''PG-13''),
                 pv_featured = orBool (dv_featured d) False,
                 pv_category = orStr (dv_genre d) (str ''General''),
                 pv_createdAt = (case truthyStr (dv_createdAt d) of
                                   None \<Rightarrow> now | Some s \<Rightarrow> DateParsed s)\<rparr>)
         in distinct (map pv_id catalog)
          \<and> take (length (s3Assets e tr)) catalog = s3Assets e tr
          \<and> map pv_id (s3Assets e tr)
              = map mv_id (filter (\<lambda>m. videoOf m \<noteq> None) (movieGroups e tr))
          \<and> (\<forall>v \<in> set (s3Assets e tr). filter (\<lambda>x. pv_id x = pv_id v) catalog = [v])
          \<and> (\<forall>m \<in> set (movieGroups e tr). videoOf m = None
                 \<longrightarrow> mv_id m \<notin> set (map pv_id (s3Assets e tr)))
          \<and> (\<forall>d \<in> set (dynamoRows e tr). dv_id d \<notin> set (map pv_id (s3Assets e tr)) \<longrightarrow>
                (\<exists>d0 url h h1.
                    find (\<lambda>r. dv_id r = dv_id d) (dynamoRows e tr) = Some d0
                    \<and> (case truthyStr (dv_videoKey d0) of
                          None \<Rightarrow> url = None \<and> h1 = h
                        | Some key \<Rightarrow> getSignedVideoUrl e h key = Inr url
                                        \<and> h1 = h @ [GetSignedVideoUrl key])
                    \<and> filter (\<lambda>x. pv_id x = dv_id d) catalog
                        = [rowAsset d0 url (DateAt (clock e h1))]))"
proof -
  from refreshPass_success [OF assms] obtain tr3 new where
    ps: "processS3 e (s3Listing e tr) (tr @ [ListVideos (str ''movies/''), GetAllVideos])
           = (Inr (s3Assets e tr), tr3)"
    and cat: "catalog = s3Assets e tr @ new"
    and d: "distinct (map pv_id (s3Assets e tr)) \<longrightarrow> distinct (map pv_id catalog)"
    and rows: "\<forall>d \<in> set (dynamoRows e tr). dv_id d \<in> pv_id ` set catalog"
    by blast
  have dist: "distinct (map pv_id catalog)"
    using d s3Assets_distinct [OF ps] by simp
  have ids: "map pv_id (s3Assets e tr)
              = map mv_id (filter (\<lambda>m. videoOf m \<noteq> None) (movieGroups e tr))"
    by (rule s3Assets_ids(1) [OF ps])
  have s3: "\<forall>v \<in> set (s3Assets e tr). filter (\<lambda>x. pv_id x = pv_id v) catalog = [v]"
  proof
    fix v assume "v \<in> set (s3Assets e tr)"
    then have "v \<in> set catalog" using cat by simp
    with dist show "filter (\<lambda>x. pv_id x = pv_id v) catalog = [v]"
      by (rule filter_same_key)
  qed
  have dropped: "\<forall>m \<in> set (movieGroups e tr). videoOf m = None
                 \<longrightarrow> mv_id m \<notin> set (map pv_id (s3Assets e tr))"
  proof (intro ballI impI)
    fix m assume m: "m \<in> set (movieGroups e tr)" and n: "videoOf m = None"
    from n have "\<not> videoOf m \<noteq> None" by simp
    from dropped_id [of mv_id "movieGroups e tr" m "\<lambda>m. videoOf m \<noteq> None",
                     OF movieGroups_distinct m this] show "mv_id m \<notin> set (map pv_id (s3Assets e tr))"
      unfolding ids .
  qed
  have new: "drop (length (s3Assets e tr)) catalog = new" using cat by simp
  have row: "\<forall>d \<in> set (dynamoRows e tr). dv_id d \<notin> set (map pv_id (s3Assets e tr)) \<longrightarrow>
                (\<exists>d0 url h h1.
                    find (\<lambda>r. dv_id r = dv_id d) (dynamoRows e tr) = Some d0
                    \<and> (case truthyStr (dv_videoKey d0) of
                          None \<Rightarrow> url = None \<and> h1 = h
                        | Some key \<Rightarrow> getSignedVideoUrl e h key = Inr url
                                        \<and> h1 = h @ [GetSignedVideoUrl key])
                    \<and> filter (\<lambda>x. pv_id x = dv_id d) catalog
                        = [fromDynamo d0 url (DateAt (clock e h1))])"
  proof (intro ballI impI)
    fix d assume dr: "d \<in> set (dynamoRows e tr)"
      and notin: "dv_id d \<notin> set (map pv_id (s3Assets e tr))"
    from rows dr obtain x where x: "x \<in> set catalog" "pv_id x = dv_id d"
      by (auto simp: image_iff)
    from notin x(2) have "x \<notin> set (s3Assets e tr)" by (auto simp: image_iff)
    with x(1) cat have "x \<in> set new" by simp
    then have "x \<in> set (drop (length (s3Assets e tr)) catalog)" using new by simp
    with refreshPass_rows [OF assms] obtain d0 url h h1 where
      f: "find (\<lambda>r. dv_id r = pv_id x) (dynamoRows e tr) = Some d0"
      and s: "signIfKey e (dv_videoKey d0) h = (Inr url, h1)"
      and v: "x = fromDynamo d0 url (DateAt (clock e h1))"
      by (auto dest!: bspec)
    from filter_same_key [OF dist x(1)]
    have fl: "filter (\<lambda>y. pv_id y = dv_id d) catalog = [fromDynamo d0 url (DateAt (clock e h1))]"
      using x(2) v by simp
    from f x(2) have f': "find (\<lambda>r. dv_id r = dv_id d) (dynamoRows e tr) = Some d0" by simp
    from f' signIfKey_cases [OF s] fl
    show "\<exists>d0 url h h1.
                    find (\<lambda>r. dv_id r = dv_id d) (dynamoRows e tr) = Some d0
                    \<and> (case truthyStr (dv_videoKey d0) of
                          None \<Rightarrow> url = None \<and> h1 = h
                        | Some key \<Rightarrow> getSignedVideoUrl e h key = Inr url
                                        \<and> h1 = h @ [GetSignedVideoUrl key])
                    \<and> filter (\<lambda>x. pv_id x = dv_id d) catalog
                        = [fromDynamo d0 url (DateAt (clock e h1))]"
      by (intro exI [of _ d0] exI [of _ url] exI [of _ h] exI [of _ h1]) simp
  qed
  have tk: "take (length (s3Assets e tr)) catalog = s3Assets e tr" using cat by simp
  show ?thesis
    unfolding Let_def fromDynamo_fields [symmetric]
    using dist tk ids s3 dropped row by (intro conjI)
qed

theorem merge_precedence_witness:
  "distinct (map pv_id demoCatalog)
   \<and> map pv_id (s3Assets demoEnv []) = [str ''2'', str ''1'']
   \<and> map dv_id (dynamoRows demoEnv []) = [str ''3'', str ''4'', str ''1'']
   \<and> filter (\<lambda>x. pv_id x = str ''1'') demoCatalog
       = [\<lparr>pv_id = str ''1'', pv_title = str ''One'', pv_description = str ''Action movie: One'',
            pv_thumbnailUrl = Some (str ''movies/1.png''),
            pv_videoUrl = Some (str ''https://signed/movies/1.mp4''),
            pv_hlsUrl = str ''movies/1.mp4'', pv_duration = 120, pv_releaseYear = 2023,
            pv_genre = str ''Action'', pv_rating = str ''PG-13'', pv_featured = True,
            pv_category = str ''Action'', pv_createdAt = DateAt 100000\<rparr>]
   \<and> filter (\<lambda>x. pv_id x = str ''4'') demoCatalog
       = [\<lparr>pv_id = str ''4'', pv_title = str ''Record'', pv_description = str ''No description'',
            pv_thumbnailUrl = None, pv_videoUrl = None, pv_hlsUrl = [], pv_duration = 0,
            pv_releaseYear = 2023, pv_genre = str ''Unknown'', pv_rating = str ''PG-13'',
            pv_featured = True, pv_category = str ''General'', pv_createdAt = DateAt 100000\<rparr>]"
proof -
  obtain tr' where p: "refreshPass demoEnv [] = (Inr demoCatalog, tr')"
    using demo_pass by (cases "refreshPass demoEnv []") auto
  note T = merge_precedence [OF p, unfolded Let_def]
  have a1: "demoAsset1 \<in> set (s3Assets demoEnv [])" by (simp add: demo_s3Assets)
  have i1: "pv_id demoAsset1 = str ''1''"
    by (simp add: demoAsset1_def fromMovie_def demoMovie_def)
  have e1: "demoAsset1
       = \<lparr>pv_id = str ''1'', pv_title = str ''One'', pv_description = str ''Action movie: One'',
            pv_thumbnailUrl = Some (str ''movies/1.png''),
            pv_videoUrl = Some (str ''https://signed/movies/1.mp4''),
            pv_hlsUrl = str ''movies/1.mp4'', pv_duration = 120, pv_releaseYear = 2023,
            pv_genre = str ''Action'', pv_rating = str ''PG-13'', pv_featured = True,
            pv_category = str ''Action'', pv_createdAt = DateAt 100000\<rparr>"
    by (simp add: demoAsset1_def fromMovie_def demoMovie_def demoMovieFile_def orVal_def
          template_def orStr_def truthyStr_def)
  from T have d: "distinct (map pv_id demoCatalog)" by simp
  from T a1 have "filter (\<lambda>x. pv_id x = pv_id demoAsset1) demoCatalog = [demoAsset1]"
    by blast
  then have f1: "filter (\<lambda>x. pv_id x = str ''1'') demoCatalog
       = [\<lparr>pv_id = str ''1'', pv_title = str ''One'', pv_description = str ''Action movie: One'',
            pv_thumbnailUrl = Some (str ''movies/1.png''),
            pv_videoUrl = Some (str ''https://signed/movies/1.mp4''),
            pv_hlsUrl = str ''movies/1.mp4'', pv_duration = 120, pv_releaseYear = 2023,
            pv_genre = str ''Action'', pv_rating = str ''PG-13'', pv_featured = True,
            pv_category = str ''Action'', pv_createdAt = DateAt 100000\<rparr>]"
    unfolding i1 by (simp only: e1)
  have s3ids: "map pv_id (s3Assets demoEnv []) = [str ''2'', str ''1'']"
    by (simp add: demo_s3Assets demoAsset1_def demoAsset2_def fromMovie_def demoMovie_def)
  have rowids: "map dv_id (dynamoRows demoEnv []) = [str ''3'', str ''4'', str ''1'']"
    by (simp add: demo_rows demoRows_def demoRow_def)
  let ?d4 = "demoRow ''4'' None (Some True)"
  have r4: "?d4 \<in> set (dynamoRows demoEnv [])" by (simp add: demo_rows demoRows_def)
  have i4: "dv_id ?d4 = str ''4''" by (simp add: demoRow_def)
  have n4: "dv_id ?d4 \<notin> set (map pv_id (s3Assets demoEnv []))"
    unfolding s3ids i4 by simp
  have fd: "find (\<lambda>r. dv_id r = str ''4'') (dynamoRows demoEnv []) = Some ?d4"
    by (simp add: demo_rows demoRows_def demoRow_def)
  have ck: "\<And>h. clock demoEnv h = 100000" by (simp add: demoEnv_def)
  note R = T [THEN conjunct2, THEN conjunct2, THEN conjunct2, THEN conjunct2, THEN conjunct2,
              rule_format, OF r4 n4]
  from R obtain d0 url h h1 where
    w: "find (\<lambda>r. dv_id r = dv_id ?d4) (dynamoRows demoEnv []) = Some d0"
       "(case truthyStr (dv_videoKey d0) of
            None \<Rightarrow> url = None \<and> h1 = h
          | Some key \<Rightarrow> getSignedVideoUrl demoEnv h key = Inr url \<and> h1 = h @ [GetSignedVideoUrl key])"
       "filter (\<lambda>x. pv_id x = dv_id ?d4) demoCatalog
          = [\<lparr>pv_id = dv_id d0,
               pv_title = orStr (dv_title d0) (str ''Untitled''),
               pv_description = orStr (dv_description d0) (str ''No description''),
               pv_thumbnailUrl = truthyStr (dv_thumbnailKey d0),
               pv_videoUrl = url,
               pv_hlsUrl = orStr (dv_videoKey d0) [],
               pv_duration = orNum (dv_duration d0) 0,
               pv_releaseYear = orNum (dv_releaseYear d0) 2023,
               pv_genre = orStr (dv_genre d0) (str ''Unknown''),
               pv_rating = orStr (dv_rating d0) (str ''PG-13''),
               pv_featured = orBool (dv_featured d0) False,
               pv_category = orStr (dv_genre d0) (str ''General''),
               pv_createdAt = (case truthyStr (dv_createdAt d0) of
                                 None \<Rightarrow> DateAt (clock demoEnv h1) | Some s \<Rightarrow> DateParsed s)\<rparr>]"
    by (elim exE conjE) blast
  from w(1) fd have d0: "d0 = ?d4" unfolding i4 by simp
  from w(2) have u: "url = None" unfolding d0 by (simp add: demoRow_def truthyStr_def)
  from w(3) have f4: "filter (\<lambda>x. pv_id x = str ''4'') demoCatalog
       = [\<lparr>pv_id = str ''4'', pv_title = str ''Record'', pv_description = str ''No description'',
            pv_thumbnailUrl = None, pv_videoUrl = None, pv_hlsUrl = [], pv_duration = 0,
            pv_releaseYear = 2023, pv_genre = str ''Unknown'', pv_rating = str ''PG-13'',
            pv_featured = True, pv_category = str ''General'', pv_createdAt = DateAt 100000\<rparr>]"
    unfolding d0 u i4 ck
    by (simp add: demoRow_def orStr_def truthyStr_def orNum_def orBool_def)
  from d s3ids rowids f1 f4 show ?thesis by simp
qed

theorem merge_precedence_counterexample:
  "str ''3'' \<in> set (listingIds demoEnv (s3Listing demoEnv []))
   \<and> str ''3'' \<in> set (map dv_id (dynamoRows demoEnv []))
   \<and> str ''3'' \<notin> set (map pv_id (s3Assets demoEnv []))
   \<and> fst (refreshPass demoEnv []) = Inr demoCatalog
   \<and> filter (\<lambda>x. pv_id x = str ''3'') demoCatalog
       = [\<lparr>pv_id = str ''3'', pv_title = str ''Record'', pv_description = str ''No description'',
            pv_thumbnailUrl = None, pv_videoUrl = Some (str ''https://signed/uploads/3.mp4''),
            pv_hlsUrl = str ''uploads/3.mp4'', pv_duration = 0, pv_releaseYear = 2023,
            pv_genre = str ''Unknown'', pv_rating = str ''PG-13'', pv_featured = False,
            pv_category = str ''General'', pv_createdAt = DateAt 100000\<rparr>]"
proof -
  have a: "str ''3'' \<in> set (listingIds demoEnv (s3Listing demoEnv []))"
    by (simp add: demo_listing demo_listingIds)
  have b: "str ''3'' \<in> set (map dv_id (dynamoRows demoEnv []))"
    by (simp add: demo_rows demoRows_def demoRow_def)
  have c: "str ''3'' \<notin> set (map pv_id (s3Assets demoEnv []))"
    by (simp add: demo_s3Assets demoAsset1_def demoAsset2_def fromMovie_def demoMovie_def)
  have d: "filter (\<lambda>x. pv_id x = str ''3'') demoCatalog
       = [fromDynamo (demoRow ''3'' (Some (str ''uploads/3.mp4'')) None)
            (Some (str ''https://signed/uploads/3.mp4'')) (DateAt 100000)]"
    by code_simp
  have e: "fromDynamo (demoRow ''3'' (Some (str ''uploads/3.mp4'')) None)
            (Some (str ''https://signed/uploads/3.mp4'')) (DateAt 100000)
       = \<lparr>pv_id = str ''3'', pv_title = str ''Record'', pv_description = str ''No description'',
            pv_thumbnailUrl = None, pv_videoUrl = Some (str ''https://signed/uploads/3.mp4''),
            pv_hlsUrl = str ''uploads/3.mp4'', pv_duration = 0, pv_releaseYear = 2023,
            pv_genre = str ''Unknown'', pv_rating = str ''PG-13'', pv_featured = False,
            pv_category = str ''General'', pv_createdAt = DateAt 100000\<rparr>"
    by (simp add: fromDynamo_def demoRow_def orStr_def truthyStr_def orNum_def orBool_def)
  from a b c d [unfolded e] demo_pass show ?thesis by simp
qed

text \<open>
  C4 (as amended). Among the assets built from the bulk listing, \<open>featured\<close> is true exactly
  for the asset whose id is the string \<open>1\<close>, whatever the listing order, so at most one of
  them is featured; an asset appended from the record store carries the row's own
  \<open>featured\<close> attribute (false when absent).
\<close>

theorem featured_policy:
  assumes "refreshPass e tr = (Inr catalog, tr')"
  shows "(\<forall>v \<in> set (s3Assets e tr). pv_featured v \<longleftrightarrow> pv_id v = str ''1'')
       \<and> length (filter pv_featured (s3Assets e tr)) \<le> 1
       \<and> (\<forall>v \<in> set (drop (length (s3Assets e tr)) catalog).
             \<exists>d \<in> set (dynamoRows e tr).
               pv_id v = dv_id d \<and> pv_featured v = orBool (dv_featured d) False)"
proof -
  from refreshPass_success [OF assms] obtain tr3 new where
    ps: "processS3 e (s3Listing e tr) (tr @ [ListVideos (str ''movies/''), GetAllVideos])
           = (Inr (s3Assets e tr), tr3)"
    and cat: "catalog = s3Assets e tr @ new"
    and new: "\<forall>v \<in> set new. \<exists>d \<in> set (dynamoRows e tr). \<exists>url now.
                  v = fromDynamo d url now \<and> dv_id d \<notin> pv_id ` set (s3Assets e tr)
                  \<and> (truthyStr (dv_videoKey d) = None \<longrightarrow> url = None)"
    by blast
  have f: "\<forall>v \<in> set (s3Assets e tr). pv_featured v \<longleftrightarrow> pv_id v = str ''1''"
  proof
    fix v assume "v \<in> set (s3Assets e tr)"
    with s3Assets_ids(2) [OF ps] obtain m vf url now where
      "v = fromMovie m (thumbnailOf m) vf url now" by blast
    then show "pv_featured v \<longleftrightarrow> pv_id v = str ''1''" by (simp add: fromMovie_def)
  qed
  then have "filter pv_featured (s3Assets e tr) = filter (\<lambda>v. pv_id v = str ''1'') (s3Assets e tr)"
    by (intro filter_cong) auto
  then have one: "length (filter pv_featured (s3Assets e tr)) \<le> 1"
    using filter_key_le_one [OF s3Assets_distinct [OF ps], of "str ''1''"] by simp
  have "\<forall>v \<in> set new. \<exists>d \<in> set (dynamoRows e tr).
               pv_id v = dv_id d \<and> pv_featured v = orBool (dv_featured d) False"
  proof
    fix v assume "v \<in> set new"
    with new obtain d url now where "d \<in> set (dynamoRows e tr)" "v = fromDynamo d url now" by blast
    then show "\<exists>d \<in> set (dynamoRows e tr).
               pv_id v = dv_id d \<and> pv_featured v = orBool (dv_featured d) False"
      by (intro bexI [of _ d]) (simp_all add: fromDynamo_def)
  qed
  with f one cat show ?thesis by simp
qed

theorem featured_policy_witness:
  "pv_featured demoAsset1 \<and> \<not> pv_featured demoAsset2
   \<and> length (filter pv_featured (s3Assets demoEnv [])) \<le> 1"
proof -
  obtain tr' where p: "refreshPass demoEnv [] = (Inr demoCatalog, tr')"
    using demo_pass by (cases "refreshPass demoEnv []") auto
  have m: "demoAsset1 \<in> set (s3Assets demoEnv [])" "demoAsset2 \<in> set (s3Assets demoEnv [])"
    by (simp_all add: demo_s3Assets)
  have i: "pv_id demoAsset1 = str ''1''" "pv_id demoAsset2 \<noteq> str ''1''"
    by (simp_all add: demoAsset1_def demoAsset2_def fromMovie_def demoMovie_def)
  from featured_policy [OF p] m i show ?thesis by blast
qed

theorem featured_policy_counterexample:
  "listingIds demoEnv (s3Listing demoEnv []) = [str ''2'', str ''1'', str ''1'', str ''3'']
   \<and> fst (refreshPass demoEnv []) = Inr demoCatalog
   \<and> map pv_id demoCatalog = [str ''2'', str ''1'', str ''3'', str ''4'']
   \<and> map pv_featured demoCatalog = [False, True, False, True]"
proof -
  have "map pv_featured demoCatalog = [False, True, False, True]" by code_simp
  with demo_listing demo_listingIds demo_pass demo_ids show ?thesis by simp
qed

text \<open>
  C5 (as amended). Every asset built from the bulk listing comes from a group that has a
  video (mp4) file, whose key is the asset's playback key, and a group without a video file
  (thumbnail only) yields no asset. Rows of the record store are appended under no such
  condition: every row's id is in the catalog, and an appended row has the row's video key as
  playback key; when the row has none, the playback key is the empty string and there is no
  playback URL.
\<close>

theorem inclusion_condition:
  assumes "refreshPass e tr = (Inr catalog, tr')"
  shows "(\<forall>v \<in> set (s3Assets e tr). \<exists>m \<in> set (movieGroups e tr). \<exists>vf.
             videoOf m = Some vf \<and> mf_type vf = str ''mp4''
             \<and> pv_id v = mv_id m \<and> pv_hlsUrl v = orStr (mf_key vf) [])
       \<and> (\<forall>m \<in> set (movieGroups e tr). videoOf m = None
             \<longrightarrow> mv_id m \<notin> set (map pv_id (s3Assets e tr)))
       \<and> (\<forall>d \<in> set (dynamoRows e tr). dv_id d \<in> set (map pv_id catalog))
       \<and> (\<forall>v \<in> set (drop (length (s3Assets e tr)) catalog).
             \<exists>d \<in> set (dynamoRows e tr).
               pv_id v = dv_id d \<and> pv_hlsUrl v = orStr (dv_videoKey d) []
               \<and> (truthyStr (dv_videoKey d) = None \<longrightarrow> pv_hlsUrl v = [] \<and> pv_videoUrl v = None))"
proof -
  from refreshPass_success [OF assms] obtain tr3 new where
    ps: "processS3 e (s3Listing e tr) (tr @ [ListVideos (str ''movies/''), GetAllVideos])
           = (Inr (s3Assets e tr), tr3)"
    and cat: "catalog = s3Assets e tr @ new"
    and new: "\<forall>v \<in> set new. \<exists>d \<in> set (dynamoRows e tr). \<exists>url now.
                  v = fromDynamo d url now \<and> dv_id d \<notin> pv_id ` set (s3Assets e tr)
                  \<and> (truthyStr (dv_videoKey d) = None \<longrightarrow> url = None)"
    and rows: "\<forall>d \<in> set (dynamoRows e tr). dv_id d \<in> pv_id ` set catalog"
    by blast
  have a: "\<forall>v \<in> set (s3Assets e tr). \<exists>m \<in> set (movieGroups e tr). \<exists>vf.
             videoOf m = Some vf \<and> mf_type vf = str ''mp4''
             \<and> pv_id v = mv_id m \<and> pv_hlsUrl v = orStr (mf_key vf) []"
  proof
    fix v assume "v \<in> set (s3Assets e tr)"
    with s3Assets_ids(2) [OF ps] obtain m vf url now where
      m: "m \<in> set (movieGroups e tr)" "videoOf m = Some vf"
         "v = fromMovie m (thumbnailOf m) vf url now" by blast
    then have "videoOf m = Some vf \<and> mf_type vf = str ''mp4''
             \<and> pv_id v = mv_id m \<and> pv_hlsUrl v = orStr (mf_key vf) []"
      by (simp add: fromMovie_def videoOf_type)
    with m(1) show "\<exists>m \<in> set (movieGroups e tr). \<exists>vf.
             videoOf m = Some vf \<and> mf_type vf = str ''mp4''
             \<and> pv_id v = mv_id m \<and> pv_hlsUrl v = orStr (mf_key vf) []"
      by (intro bexI [of _ m] exI [of _ vf])
  qed
  have b: "\<forall>m \<in> set (movieGroups e tr). videoOf m = None
             \<longrightarrow> mv_id m \<notin> set (map pv_id (s3Assets e tr))"
  proof (intro ballI impI)
    fix m assume "m \<in> set (movieGroups e tr)" "videoOf m = None"
    then have "mv_id m \<notin> set (map mv_id (filter (\<lambda>m. videoOf m \<noteq> None) (movieGroups e tr)))"
      by (intro dropped_id movieGroups_distinct) simp_all
    then show "mv_id m \<notin> set (map pv_id (s3Assets e tr))"
      using s3Assets_ids(1) [OF ps] by simp
  qed
  have c: "\<forall>d \<in> set (dynamoRows e tr). dv_id d \<in> set (map pv_id catalog)"
    using rows by simp
  have "\<forall>v \<in> set new. \<exists>d \<in> set (dynamoRows e tr).
               pv_id v = dv_id d \<and> pv_hlsUrl v = orStr (dv_videoKey d) []
               \<and> (truthyStr (dv_videoKey d) = None \<longrightarrow> pv_hlsUrl v = [] \<and> pv_videoUrl v = None)"
  proof
    fix v assume "v \<in> set new"
    with new obtain d url now where d: "d \<in> set (dynamoRows e tr)" "v = fromDynamo d url now"
      "truthyStr (dv_videoKey d) = None \<longrightarrow> url = None" by (auto dest!: bspec)
    then have "pv_id v = dv_id d \<and> pv_hlsUrl v = orStr (dv_videoKey d) []
               \<and> (truthyStr (dv_videoKey d) = None \<longrightarrow> pv_hlsUrl v = [] \<and> pv_videoUrl v = None)"
      by (simp add: fromDynamo_def orStr_def)
    with d(1) show "\<exists>d \<in> set (dynamoRows e tr).
               pv_id v = dv_id d \<and> pv_hlsUrl v = orStr (dv_videoKey d) []
               \<and> (truthyStr (dv_videoKey d) = None \<longrightarrow> pv_hlsUrl v = [] \<and> pv_videoUrl v = None)"
      by (intro bexI [of _ d])
  qed
  with a b c cat show ?thesis by simp
qed

theorem inclusion_condition_witness:
  "videoOf demoGroup3 = None
   \<and> str ''3'' \<notin> set (map pv_id (s3Assets demoEnv []))
   \<and> str ''4'' \<in> set (map pv_id demoCatalog)"
proof -
  obtain tr' where p: "refreshPass demoEnv [] = (Inr demoCatalog, tr')"
    using demo_pass by (cases "refreshPass demoEnv []") auto
  have g: "demoGroup3 \<in> set (movieGroups demoEnv [])" by (simp add: demo_groups)
  have v: "videoOf demoGroup3 = None"
    by (simp add: videoOf_def demoGroup3_def demoMovieFile_def)
  have i: "mv_id demoGroup3 = str ''3''" by (simp add: demoGroup3_def)
  have r: "demoRow ''4'' None (Some True) \<in> set (dynamoRows demoEnv [])"
    by (simp add: demo_rows demoRows_def)
  have j: "dv_id (demoRow ''4'' None (Some True)) = str ''4''" by (simp add: demoRow_def)
  from inclusion_condition [OF p] have
    "\<forall>m \<in> set (movieGroups demoEnv []). videoOf m = None
        \<longrightarrow> mv_id m \<notin> set (map pv_id (s3Assets demoEnv []))"
    "\<forall>d \<in> set (dynamoRows demoEnv []). dv_id d \<in> set (map pv_id demoCatalog)"
    by blast+
  with g v i r j show ?thesis by metis
qed

theorem inclusion_condition_counterexample:
  "demoRow ''4'' None (Some True) \<in> set (dynamoRows demoEnv [])
   \<and> dv_videoKey (demoRow ''4'' None (Some True)) = None
   \<and> fst (refreshPass demoEnv []) = Inr demoCatalog
   \<and> demoCatalog ! 3 = fromDynamo (demoRow ''4'' None (Some True)) None (DateAt 100000)
   \<and> pv_id (demoCatalog ! 3) = str ''4''
   \<and> pv_hlsUrl (demoCatalog ! 3) = []
   \<and> pv_videoUrl (demoCatalog ! 3) = None"
proof -
  have r: "demoRow ''4'' None (Some True) \<in> set (dynamoRows demoEnv [])"
    by (simp add: demo_rows demoRows_def)
  have a: "demoCatalog ! 3 = fromDynamo (demoRow ''4'' None (Some True)) None (DateAt 100000)"
    by (simp add: demoCatalog_def demoAsset4_def)
  have b: "pv_id (demoCatalog ! 3) = str ''4''" "pv_hlsUrl (demoCatalog ! 3) = []"
      "pv_videoUrl (demoCatalog ! 3) = None"
    unfolding a by (simp_all add: fromDynamo_def demoRow_def orStr_def truthyStr_def)
  have c: "dv_videoKey (demoRow ''4'' None (Some True)) = None" by (simp add: demoRow_def)
  from r a b c demo_pass show ?thesis by simp
qed

section \<open>Properties of the queries\<close>


text \<open>
  C9. \<open>getFeaturedContent\<close> runs the refresh gate and then returns, converted to a \<open>Video\<close>
  field by field and with match 95, the first asset flagged \<open>featured\<close> if there is one,
  otherwise the first asset of the snapshot; it throws (the error \<open>No videos available\<close>)
  exactly when the snapshot after the gate is empty.
\<close>

theorem getFeaturedContent_spec:
  assumes "getFeaturedContent e userId st tr = (r, st1, tr1)"
  shows "let asVideo = (\<lambda>v. \<lparr>v_id = parseInt (pv_id v),
                            v_title = pv_title v,
                            v_description = pv_description v,
                            v_thumbnailUrl = (case pv_thumbnailUrl v of None \<Rightarrow> [] | Some u \<Rightarrow> u),
                            v_videoUrl = (case pv_videoUrl v of None \<Rightarrow> [] | Some u \<Rightarrow> u),
                            v_hlsUrl = pv_hlsUrl v,
                            v_duration = pv_duration v,
                            v_releaseYear = pv_releaseYear v,
                            v_genre = pv_genre v,
                            v_rating = pv_rating v,
                            v_featured = pv_featured v,
                            v_category = pv_category v,
                            v_createdAt = pv_createdAt v\<rparr>) in
         (st1, tr1) = refreshCache e st tr
       \<and> ((\<exists>err. r = Inl err) \<longleftrightarrow> videosCache st1 = [])
       \<and> (videosCache st1 = [] \<longrightarrow> r = Inl (Error (str ''No videos available'')))
       \<and> (\<forall>v. find pv_featured (videosCache st1) = Some v
              \<longrightarrow> r = Inr \<lparr>fc_video = asVideo v, fc_match = 95\<rparr>)
       \<and> (\<forall>v rest. find pv_featured (videosCache st1) = None \<and> videosCache st1 = v # rest
              \<longrightarrow> r = Inr \<lparr>fc_video = asVideo v, fc_match = 95\<rparr>)"
  using assms
  by (auto simp: getFeaturedContent_def featuredOrFirst_def toVideo_def orStr_empty Let_def
           split: prod.splits option.splits list.splits)

theorem getFeaturedContent_spec_witness:
  "getFeaturedContent failingEnv 1 freshState []
     = (Inr \<lparr>fc_video = sampleView (Num 8) True, fc_match = 95\<rparr>, freshState, [])
   \<and> map pv_id (videosCache freshState) = [str ''7'', str ''8'']
   \<and> map pv_featured (videosCache freshState) = [False, True]
   \<and> fst (getFeaturedContent failingEnv 1 negativeIdState [])
       = Inr \<lparr>fc_video = sampleView (Num (- 5)) False, fc_match = 95\<rparr>
   \<and> map pv_featured (videosCache negativeIdState) = [False]
   \<and> fst (getFeaturedContent failingEnv 1 emptyState []) = Inl (Error (str ''No videos available''))
   \<and> videosCache (fst (refreshCache failingEnv emptyState [])) = []"
proof -
  have r1: "refreshCache failingEnv freshState [] = (freshState, [])"
    by (simp add: refreshCache_def failingEnv_def freshState_def CACHE_TTL_def)
  have f1: "find pv_featured (videosCache freshState) = Some (sampleVideo (str ''8'') True)"
    by (simp add: freshState_def sampleVideo_def)
  obtain q1 s1 t1 where g1: "getFeaturedContent failingEnv 1 freshState [] = (q1, s1, t1)"
    by (cases "getFeaturedContent failingEnv 1 freshState []") auto
  from getFeaturedContent_spec [OF g1] r1 f1
  have a1: "q1 = Inr \<lparr>fc_video = sampleView (Num 8) True, fc_match = 95\<rparr> \<and> s1 = freshState \<and> t1 = []"
    by (simp add: Let_def sampleVideo_def sampleView_def parseInt_eval)
  have r2: "refreshCache failingEnv negativeIdState [] = (negativeIdState, [])"
    by (simp add: refreshCache_def failingEnv_def negativeIdState_def CACHE_TTL_def)
  have f2: "find pv_featured (videosCache negativeIdState) = None
            \<and> videosCache negativeIdState = [sampleVideo (str ''-5'') False]"
    by (simp add: negativeIdState_def sampleVideo_def)
  obtain q2 s2 t2 where g2: "getFeaturedContent failingEnv 1 negativeIdState [] = (q2, s2, t2)"
    by (cases "getFeaturedContent failingEnv 1 negativeIdState []") auto
  from getFeaturedContent_spec [OF g2] r2 f2
  have a2: "q2 = Inr \<lparr>fc_video = sampleView (Num (- 5)) False, fc_match = 95\<rparr>"
    by (simp add: Let_def sampleVideo_def sampleView_def parseInt_eval)
  have r3: "refreshCache failingEnv emptyState [] = (emptyState, [ListVideos (str ''movies/'')])"
    by (simp add: refreshCache_def refreshPass_def failingEnv_def emptyState_def CACHE_TTL_def)
  obtain q3 s3 t3 where g3: "getFeaturedContent failingEnv 1 emptyState [] = (q3, s3, t3)"
    by (cases "getFeaturedContent failingEnv 1 emptyState []") auto
  from getFeaturedContent_spec [OF g3] r3
  have a3: "q3 = Inl (Error (str ''No videos available''))"
    by (simp add: Let_def emptyState_def)
  have l: "map pv_id (videosCache freshState) = [str ''7'', str ''8'']
         \<and> map pv_featured (videosCache freshState) = [False, True]
         \<and> map pv_featured (videosCache negativeIdState) = [False]"
    by (simp add: freshState_def negativeIdState_def sampleVideo_def)
  have l3: "videosCache (fst (refreshCache failingEnv emptyState [])) = []"
    unfolding r3 by (simp add: emptyState_def)
  from a1 a2 a3 l l3 show ?thesis unfolding g1 g2 g3 by simp
qed

lemma radix10_digit: "isRadixDigit 10 c \<Longrightarrow> 48 \<le> c \<and> c \<le> 57"
  by (auto simp: isRadixDigit_def digitValue_def split: if_splits)

lemma parseInt_begins: "parseInt s \<noteq> NaN \<Longrightarrow> beginsWithDigit s"
proof -
  assume p: "parseInt s \<noteq> NaN"
  let ?S1 = "stripSign (dropWhile isWhiteSpace s)"
  let ?hex = "(case ?S1 of c # d # _ \<Rightarrow> c = 48 \<and> (d = 120 \<or> d = 88) | _ \<Rightarrow> False)"
  show ?thesis
  proof (cases ?hex)
    case True
    then obtain c d rest where "?S1 = c # d # rest" "c = 48"
      by (auto split: list.splits)
    then show ?thesis by (simp add: beginsWithDigit_def)
  next
    case False
    with p have z: "takeWhile (isRadixDigit 10) ?S1 \<noteq> []"
      by (auto simp: parseInt_def Let_def split: if_splits)
    then obtain c rest where s1: "?S1 = c # rest"
      by (cases ?S1) auto
    with z have "isRadixDigit 10 c" by (auto split: if_splits)
    with s1 show ?thesis by (simp add: beginsWithDigit_def radix10_digit)
  qed
qed

lemma strictEq_Num: "strictEq x (Num n) = (x = Num n)"
  by (cases x) auto

text \<open>The decimal numeral of a number below \<open>2^53\<close> is read back as that number.\<close>

lemma showNat_small: "n < 10 \<Longrightarrow> showNat n = [48 + n]"
  by (subst showNat.simps) simp

lemma showNat_large: "\<not> n < 10 \<Longrightarrow> showNat n = showNat (n div 10) @ [48 + n mod 10]"
  by (subst showNat.simps) simp

lemma showNat_digits: "\<forall>c \<in> set (showNat n). 48 \<le> c \<and> c \<le> 57"
proof (induction n rule: showNat.induct)
  case (1 n)
  show ?case
  proof (cases "n < 10")
    case True
    then show ?thesis by (simp add: showNat_small)
  next
    case False
    have "n mod 10 < 10" by simp
    then have "48 + n mod 10 \<le> 57" by linarith
    with 1 False show ?thesis by (simp add: showNat_large)
  qed
qed

lemma showNat_nonempty: "showNat n \<noteq> []"
  by (cases "n < 10") (simp_all add: showNat_small showNat_large)

lemma digit_radix10: "48 \<le> c \<and> c \<le> 57 \<Longrightarrow> isRadixDigit 10 c \<and> digitValue c = Some (c - 48)"
  by (auto simp: isRadixDigit_def digitValue_def)

lemma digit_plain:
  "48 \<le> c \<and> c \<le> 57 \<Longrightarrow> \<not> isWhiteSpace c \<and> c \<noteq> 43 \<and> c \<noteq> 45 \<and> c \<noteq> 120 \<and> c \<noteq> 88"
  by (auto simp: isWhiteSpace_def)

lemma radixValue_snoc:
  "radixValue R (Z @ [c]) = radixValue R Z * R + (case digitValue c of None \<Rightarrow> 0 | Some d \<Rightarrow> d)"
  by (simp add: radixValue_def)

lemma radixValue_showNat: "radixValue 10 (showNat n) = n"
proof (induction n rule: showNat.induct)
  case (1 n)
  show ?case
  proof (cases "n < 10")
    case True
    then have "digitValue (48 + n) = Some n" by (auto simp: digitValue_def)
    with True show ?thesis by (simp add: radixValue_def showNat_small)
  next
    case False
    have "n mod 10 < 10" by simp
    then have "48 \<le> 48 + n mod 10 \<and> 48 + n mod 10 \<le> 57" by linarith
    then have d: "digitValue (48 + n mod 10) = Some (n mod 10)"
      using digit_radix10 [of "48 + n mod 10"] by simp
    have "radixValue 10 (showNat n) = radixValue 10 (showNat (n div 10)) * 10 + n mod 10"
      by (simp only: showNat_large [OF False] radixValue_snoc d option.case)
    with 1 False show ?thesis by simp
  qed
qed

lemma parseInt_showNat: "n < 2 ^ 53 \<Longrightarrow> parseInt (showNat n) = Num (int n)"
proof -
  assume n: "n < 2 ^ 53"
  let ?s = "showNat n"
  have dig: "\<forall>c \<in> set ?s. 48 \<le> c \<and> c \<le> 57" by (rule showNat_digits)
  obtain c rest where s: "?s = c # rest" using showNat_nonempty [of n] by (cases ?s) auto
  with dig have c: "48 \<le> c \<and> c \<le> 57" by simp
  have dw: "dropWhile isWhiteSpace ?s = ?s" using s c digit_plain [of c] by simp
  have ss: "stripSign ?s = ?s" using s c digit_plain [of c] by (simp add: stripSign_def)
  have nohex: "(case ?s of c # d # _ \<Rightarrow> c = 48 \<and> (d = 120 \<or> d = 88) | _ \<Rightarrow> False) = False"
  proof (cases rest)
    case Nil
    with s show ?thesis by simp
  next
    case (Cons d rest')
    with s dig have "48 \<le> d \<and> d \<le> 57" by simp
    with s Cons digit_plain [of d] show ?thesis by simp
  qed
  have "\<forall>c \<in> set ?s. isRadixDigit 10 c" using dig digit_radix10 by blast
  then have tw: "takeWhile (isRadixDigit 10) ?s = ?s"
    by (simp add: takeWhile_eq_all_conv)
  have sign: "(case ?s of [] \<Rightarrow> (1::int) | c # _ \<Rightarrow> if c = 45 then - 1 else 1) = 1"
    using s c by auto
  have "parseInt ?s = toNumber 1 (radixValue 10 ?s)"
    unfolding parseInt_def Let_def dw ss nohex sign
    using showNat_nonempty [of n] by (simp add: tw)
  also have "\<dots> = Num (int n)"
    using n by (simp add: radixValue_showNat toNumber_def roundToDouble_def)
  finally show ?thesis .
qed

lemma vm_video_withMatches: "map vm_video (withMatches draws k cache) = map toVideo cache"
  by (induction cache arbitrary: k) auto

lemma concat_pushVideo:
  "list_ex (\<lambda>p. fst p = c) cm \<Longrightarrow>
     set (concat (map snd (pushVideo c x cm))) = insert x (set (concat (map snd cm)))"
proof (induction cm)
  case Nil
  then show ?case by simp
next
  case (Cons p rest)
  show ?case
  proof (cases "fst p = c")
    case True
    then show ?thesis by simp
  next
    case False
    with Cons.prems have "list_ex (\<lambda>p. fst p = c) rest" by simp
    from Cons.IH [OF this] False show ?thesis by simp
  qed
qed

lemma listed_pushVideo:
  "list_ex (\<lambda>p. fst p = c) cm \<Longrightarrow> listed (pushVideo c x cm) = insert (vm_video x) (listed cm)"
  unfolding listed_def by (simp only: concat_pushVideo image_insert)

lemma listed_append_empty: "listed (cm @ [(c, [])]) = listed cm"
  by (simp add: listed_def)

lemma listed_groupVideos:
  "listed (groupVideos draws k cache cm) = listed cm \<union> toVideo ` set cache"
proof (induction cache arbitrary: k cm)
  case Nil
  then show ?case by simp
next
  case (Cons video rest)
  let ?c = "pv_category video"
  let ?cm1 = "if \<not> list_ex (\<lambda>p. fst p = ?c) cm then cm @ [(?c, [])] else cm"
  let ?x = "\<lparr>vm_video = toVideo video, vm_match = draws k mod 30 + 70\<rparr>"
  have has: "list_ex (\<lambda>p. fst p = ?c) ?cm1" by simp
  have "listed (pushVideo ?c ?x ?cm1) = insert (toVideo video) (listed ?cm1)"
    using listed_pushVideo [OF has, of ?x] by simp
  also have "listed ?cm1 = listed cm" by (simp add: listed_append_empty)
  finally have "listed (pushVideo ?c ?x ?cm1) = insert (toVideo video) (listed cm)" .
  then show ?case using Cons.IH [of "Suc k" "pushVideo ?c ?x ?cm1"] by (simp add: Let_def)
qed

lemma numberCategories_videos: "map cat_videos (numberCategories k cm) = map snd cm"
  by (induction cm arbitrary: k) auto

lemma categories_list_all:
  "vm_video ` set (concat (map cat_videos (numberCategories 1 (groupVideos draws 0 cache []))))
     = toVideo ` set cache"
  using listed_groupVideos [of draws 0 cache "[]"]
  by (simp add: numberCategories_videos listed_def)

lemma fresh_gate: "refreshCache failingEnv freshState [] = (freshState, [])"
  by (simp add: refreshCache_def failingEnv_def freshState_def CACHE_TTL_def)

text \<open>
  C10 (as amended). For every catalog state and every integer \<open>videoId\<close>, \<open>getVideoById\<close>
  returns, converted to a \<open>Video\<close> field by field, the first cached asset whose id \<open>parseInt\<close>
  reads as the number \<open>videoId\<close>, and \<open>null\<close> when there is none. For an id that is the decimal
  numeral of a natural number below \<open>2^53\<close> that is the case exactly when the number is
  \<open>videoId\<close>. \<open>parseInt\<close> skips leading white space and one sign, so the asset returned has an
  id that begins with a decimal digit after that prefix, and an asset whose id does not can never
  be returned, although it is listed by the recommendations and by the categories, which list
  every cached asset.
\<close>

theorem getVideoById_spec:
  assumes "getVideoById e (Num videoId) st tr = (r, st1, tr1)"
  shows "let asVideo = (\<lambda>v. \<lparr>v_id = parseInt (pv_id v),
                            v_title = pv_title v,
                            v_description = pv_description v,
                            v_thumbnailUrl = (case pv_thumbnailUrl v of None \<Rightarrow> [] | Some u \<Rightarrow> u),
                            v_videoUrl = (case pv_videoUrl v of None \<Rightarrow> [] | Some u \<Rightarrow> u),
                            v_hlsUrl = pv_hlsUrl v,
                            v_duration = pv_duration v,
                            v_releaseYear = pv_releaseYear v,
                            v_genre = pv_genre v,
                            v_rating = pv_rating v,
                            v_featured = pv_featured v,
                            v_category = pv_category v,
                            v_createdAt = pv_createdAt v\<rparr>);
             hit = find (\<lambda>v. parseInt (pv_id v) = Num videoId) (videosCache st1)
         in (st1, tr1) = refreshCache e st tr
       \<and> r = map_option asVideo hit
       \<and> (\<forall>v. hit = Some v \<longrightarrow> beginsWithDigit (pv_id v))
       \<and> (\<forall>v \<in> set (videosCache st1). \<not> beginsWithDigit (pv_id v)
              \<longrightarrow> parseInt (pv_id v) \<noteq> Num videoId)
       \<and> (\<forall>v \<in> set (videosCache st1). \<forall>n. n < 2 ^ 53 \<and> pv_id v = showNat n
              \<longrightarrow> (parseInt (pv_id v) = Num videoId \<longleftrightarrow> int n = videoId))
       \<and> map vm_video (fst (getRecommendedVideos e draws userId st tr))
           = map asVideo (videosCache st1)
       \<and> vm_video ` set (concat (map cat_videos (fst (getContentCategories e draws userId st tr))))
           = asVideo ` set (videosCache st1)"
proof -
  have tv: "(\<lambda>v. \<lparr>v_id = parseInt (pv_id v),
                            v_title = pv_title v,
                            v_description = pv_description v,
                            v_thumbnailUrl = (case pv_thumbnailUrl v of None \<Rightarrow> [] | Some u \<Rightarrow> u),
                            v_videoUrl = (case pv_videoUrl v of None \<Rightarrow> [] | Some u \<Rightarrow> u),
                            v_hlsUrl = pv_hlsUrl v,
                            v_duration = pv_duration v,
                            v_releaseYear = pv_releaseYear v,
                            v_genre = pv_genre v,
                            v_rating = pv_rating v,
                            v_featured = pv_featured v,
                            v_category = pv_category v,
                            v_createdAt = pv_createdAt v\<rparr>) = toVideo"
    by (rule ext) (simp add: toVideo_def orStr_empty)
  have eq: "(\<lambda>v. strictEq (parseInt (pv_id v)) (Num videoId)) = (\<lambda>v. parseInt (pv_id v) = Num videoId)"
    by (simp add: strictEq_Num)
  from assms have rc: "refreshCache e st tr = (st1, tr1)"
    by (auto simp: getVideoById_def split: prod.splits option.splits)
  from assms rc have r: "r = map_option toVideo (find (\<lambda>v. parseInt (pv_id v) = Num videoId) (videosCache st1))"
    by (auto simp: getVideoById_def eq split: option.splits)
  have b: "\<forall>v. find (\<lambda>v. parseInt (pv_id v) = Num videoId) (videosCache st1) = Some v
              \<longrightarrow> beginsWithDigit (pv_id v)"
  proof (intro allI impI)
    fix v assume "find (\<lambda>v. parseInt (pv_id v) = Num videoId) (videosCache st1) = Some v"
    then have "parseInt (pv_id v) = Num videoId" by (auto simp: find_Some_iff)
    then have "parseInt (pv_id v) \<noteq> NaN" by simp
    then show "beginsWithDigit (pv_id v)" by (rule parseInt_begins)
  qed
  have c: "\<forall>v \<in> set (videosCache st1). \<not> beginsWithDigit (pv_id v)
              \<longrightarrow> parseInt (pv_id v) \<noteq> Num videoId"
  proof (intro ballI impI notI)
    fix v assume n: "\<not> beginsWithDigit (pv_id v)" and p: "parseInt (pv_id v) = Num videoId"
    from p have "parseInt (pv_id v) \<noteq> NaN" by simp
    with n parseInt_begins show False by blast
  qed
  have k: "\<forall>v \<in> set (videosCache st1). \<forall>n. n < 2 ^ 53 \<and> pv_id v = showNat n
              \<longrightarrow> (parseInt (pv_id v) = Num videoId \<longleftrightarrow> int n = videoId)"
    by (auto simp: parseInt_showNat)
  have d: "map vm_video (fst (getRecommendedVideos e draws userId st tr)) = map toVideo (videosCache st1)"
    by (simp add: getRecommendedVideos_def rc vm_video_withMatches)
  have f: "vm_video ` set (concat (map cat_videos (fst (getContentCategories e draws userId st tr))))
           = toVideo ` set (videosCache st1)"
    by (simp only: getContentCategories_def rc prod.case fst_conv categories_list_all)
  show ?thesis unfolding Let_def tv using rc r b c k d f by simp
qed

theorem getVideoById_spec_witness:
  "fst (getVideoById failingEnv (Num 8) freshState []) = Some (sampleView (Num 8) True)
   \<and> beginsWithDigit (str ''8'')
   \<and> showNat 8 = str ''8''
   \<and> fst (getVideoById failingEnv (Num 9) freshState []) = None
   \<and> map vm_video (fst (getRecommendedVideos failingEnv (\<lambda>k. k) 1 freshState []))
       = [sampleView (Num 7) False, sampleView (Num 8) True]"
proof -
  obtain r s1 t1 where g: "getVideoById failingEnv (Num 8) freshState [] = (r, s1, t1)"
    by (cases "getVideoById failingEnv (Num 8) freshState []") auto
  obtain r' s1' t1' where g': "getVideoById failingEnv (Num 9) freshState [] = (r', s1', t1')"
    by (cases "getVideoById failingEnv (Num 9) freshState []") auto
  have f: "find (\<lambda>v. parseInt (pv_id v) = Num 8) (videosCache freshState)
             = Some (sampleVideo (str ''8'') True)"
    by (simp add: freshState_def sampleVideo_def parseInt_eval)
  have f': "find (\<lambda>v. parseInt (pv_id v) = Num 9) (videosCache freshState) = None"
    by (simp add: freshState_def sampleVideo_def parseInt_eval)
  let ?asVideo = "(\<lambda>v. \<lparr>v_id = parseInt (pv_id v),
                            v_title = pv_title v,
                            v_description = pv_description v,
                            v_thumbnailUrl = (case pv_thumbnailUrl v of None \<Rightarrow> [] | Some u \<Rightarrow> u),
                            v_videoUrl = (case pv_videoUrl v of None \<Rightarrow> [] | Some u \<Rightarrow> u),
                            v_hlsUrl = pv_hlsUrl v,
                            v_duration = pv_duration v,
                            v_releaseYear = pv_releaseYear v,
                            v_genre = pv_genre v,
                            v_rating = pv_rating v,
                            v_featured = pv_featured v,
                            v_category = pv_category v,
                            v_createdAt = pv_createdAt v\<rparr>)"
  have v7: "?asVideo (sampleVideo (str ''7'') False) = sampleView (Num 7) False"
    by (simp add: sampleVideo_def sampleView_def parseInt_eval)
  have v8: "?asVideo (sampleVideo (str ''8'') True) = sampleView (Num 8) True"
    by (simp add: sampleVideo_def sampleView_def parseInt_eval)
  have vc: "videosCache freshState = [sampleVideo (str ''7'') False, sampleVideo (str ''8'') True]"
    by (simp add: freshState_def)
  note T = getVideoById_spec [OF g, of "\<lambda>k. k" 1, unfolded Let_def]
  from T fresh_gate have st: "s1 = freshState" by simp
  from T st f have "r = Some (?asVideo (sampleVideo (str ''8'') True))" by simp
  then have a1: "r = Some (sampleView (Num 8) True)" unfolding v8 .
  from T st f have a2: "beginsWithDigit (pv_id (sampleVideo (str ''8'') True))" by simp
  then have a2: "beginsWithDigit (str ''8'')" by (simp add: sampleVideo_def)
  from T st vc have "map vm_video (fst (getRecommendedVideos failingEnv (\<lambda>k. k) 1 freshState []))
             = [?asVideo (sampleVideo (str ''7'') False), ?asVideo (sampleVideo (str ''8'') True)]"
    by simp
  then have a3: "map vm_video (fst (getRecommendedVideos failingEnv (\<lambda>k. k) 1 freshState []))
             = [sampleView (Num 7) False, sampleView (Num 8) True]"
    unfolding v7 v8 .
  note a = a1 a2 a3
  note T' = getVideoById_spec [OF g', of "\<lambda>k. k" 1, unfolded Let_def]
  from T' fresh_gate have st': "s1' = freshState" by simp
  from T' st' f' have a': "r' = None" by simp
  have sh: "showNat 8 = str ''8''" by (simp add: showNat.simps)
  from a a' sh show ?thesis unfolding g g' by simp
qed

theorem getVideoById_counterexample:
  "\<not> (48 \<le> hd (str ''-5'') \<and> hd (str ''-5'') \<le> 57)
   \<and> parseInt (str ''-5'') = Num (- 5)
   \<and> fst (getVideoById failingEnv (Num (- 5)) negativeIdState [])
       = Some (sampleView (Num (- 5)) False)
   \<and> parseInt (str ''9007199254740993'') = Num 9007199254740992
   \<and> fst (getVideoById failingEnv (Num 9007199254740992) bigIdState [])
       = Some (sampleView (Num 9007199254740992) False)"
  by (simp add: getVideoById_def refreshCache_def failingEnv_def negativeIdState_def bigIdState_def
        CACHE_TTL_def sampleVideo_def sampleView_def toVideo_def orStr_empty
        parseInt_eval bitLength.simps)

section \<open>Properties of ingest\<close>

lemma requestTranscodeJob_unsigned:
  assumes "getSignedVideoUrl e tr s3Key = Inl err"
    and "requestTranscodeJob e title description s3Key st tr = (r, st1, tr1)"
  shows "st1 = st \<and> r = (if development e then Inr devResult else Inl err)"
  using assms by (auto simp: requestTranscodeJob_def Let_def)













section \<open>Properties of the key decoding\<close>

lemma digitValue_hexDigit: "d < 16 \<Longrightarrow> digitValue (hexDigit d) = Some d"
  by (auto simp: digitValue_def hexDigit_def)

lemma hexOctet_pct: "B < 256 \<Longrightarrow> hexOctet (hexDigit (B div 16)) (hexDigit (B mod 16)) = Some B"
proof -
  assume b: "B < 256"
  then have "B div 16 < 16" by simp
  then show ?thesis by (simp add: hexOctet_def digitValue_hexDigit)
qed

lemma pctOctet_pct: "B < 256 \<Longrightarrow> pctOctet (pct B @ r) = Some (B, r)"
  by (simp add: pct_def hexOctet_pct)

lemma pctOctets_pct:
  "\<forall>B \<in> set Bs. B < 256 \<Longrightarrow> pctOctets (length Bs) (concat (map pct Bs) @ r) = Some (Bs, r)"
proof (induction Bs)
  case Nil
  then show ?case by simp
next
  case (Cons B Bs)
  then have "pctOctet (pct B @ concat (map pct Bs) @ r) = Some (B, concat (map pct Bs) @ r)"
    by (simp add: pctOctet_pct)
  with Cons show ?case by simp
qed

lemma unreserved_not_percent: "uriUnreserved c \<Longrightarrow> c \<noteq> 37"
  by (auto simp: uriUnreserved_def)

lemma decode_literal: "C \<noteq> 37 \<Longrightarrow> decodeURIComponent (C # r) = consOk C (decodeURIComponent r)"
  by simp

lemma decode_escape:
  assumes "pctOctet s = Some (B, rest)"
  shows "decodeURIComponent s =
           (if leadingOnes B = 0 then consOk B (decodeURIComponent rest)
              else if leadingOnes B = 1 \<or> 4 < leadingOnes B then Inl URIError
              else
                (case pctOctets (leadingOnes B - 1) rest of
                   None \<Rightarrow> Inl URIError
                 | Some (Bs, rest') \<Rightarrow>
                     (case utf8Decode (B # Bs) of
                        None \<Rightarrow> Inl URIError
                      | Some V \<Rightarrow> consOk V (decodeURIComponent rest'))))"
proof -
  from assms obtain a b where s: "s = 37 # a # b # rest"
    by (cases s rule: pctOctet.cases) (auto split: if_splits option.splits)
  show ?thesis using assms unfolding s by (simp del: pctOctet.simps)
qed

lemma decode_ascii: "B < 128 \<Longrightarrow> decodeURIComponent (pct B @ r) = consOk B (decodeURIComponent r)"
proof -
  assume b: "B < 128"
  then have "pctOctet (pct B @ r) = Some (B, r)" by (simp add: pctOctet_pct)
  from decode_escape [OF this] b show ?thesis by (simp add: leadingOnes_def)
qed

lemma split3: "(c::nat) div 4096 * 4096 + c div 64 mod 64 * 64 + c mod 64 = c"
proof -
  define D where "D = c div 64"
  define A where "A = D div 64"
  define B where "B = D mod 64"
  define M where "M = c mod 64"
  have a: "A * 64 + B = D" unfolding A_def B_def by simp
  have b: "D * 64 + M = c" unfolding D_def M_def by simp
  have e: "c div 4096 = A" unfolding A_def D_def by (simp add: div_mult2_eq)
  have "A * 4096 + B * 64 + M = c" using a b by linarith
  then show ?thesis unfolding e unfolding B_def M_def D_def by simp
qed

lemma split4: "(c::nat) div 262144 * 262144 + c div 4096 mod 64 * 4096 + c div 64 mod 64 * 64 + c mod 64 = c"
proof -
  define D where "D = c div 4096"
  have "D div 64 * 64 + D mod 64 = D" by simp
  moreover have "c div 262144 = D div 64" unfolding D_def by (simp add: div_mult2_eq)
  ultimately have "c div 262144 * 262144 + c div 4096 mod 64 * 4096 = D * 4096"
    unfolding D_def by linarith
  moreover have "D * 4096 + c div 64 mod 64 * 64 + c mod 64 = c"
    unfolding D_def by (rule split3)
  ultimately show ?thesis by linarith
qed

lemma r1: "(c::nat) < 0x10000 \<Longrightarrow> c div 4096 < 16" by (simp add: div_less_iff_less_mult)
lemma r2: "(c::nat) \<le> 0x10FFFF \<Longrightarrow> c div 262144 < 8" by (simp add: div_less_iff_less_mult)
lemma r3: "0x80 \<le> (c::nat) \<Longrightarrow> c < 0x800 \<Longrightarrow> 2 \<le> c div 64 \<and> c div 64 < 32"
  by (simp add: div_less_iff_less_mult less_eq_div_iff_mult_less_eq)
lemma r5: "0x800 \<le> (c::nat) \<Longrightarrow> 32 \<le> c div 64"
  by (simp add: less_eq_div_iff_mult_less_eq)
lemma r6: "0x10000 \<le> (c::nat) \<Longrightarrow> 16 \<le> c div 4096"
  by (simp add: less_eq_div_iff_mult_less_eq)

lemma utf8_two:
  assumes "0x80 \<le> c" "c < 0x800"
  shows "utf8 c = [0xC0 + c div 64, 0x80 + c mod 64]"
    and "leadingOnes (0xC0 + c div 64) = 2"
    and "utf8Decode [0xC0 + c div 64, 0x80 + c mod 64] = Some c"
    and "0xC0 + c div 64 < 256" and "0x80 + c mod 64 < 256"
proof -
  from assms have d: "2 \<le> c div 64" "c div 64 < 32" using r3 [of c] by simp_all
  show "utf8 c = [0xC0 + c div 64, 0x80 + c mod 64]" using assms by (simp add: utf8_def)
  show "leadingOnes (0xC0 + c div 64) = 2" using d by (simp add: leadingOnes_def)
  show "utf8Decode [0xC0 + c div 64, 0x80 + c mod 64] = Some c"
    using d by (simp add: isContinuation_def)
  show "0xC0 + c div 64 < 256" using d by simp
  show "0x80 + c mod 64 < 256" by simp
qed

lemma utf8_three:
  assumes "0x800 \<le> c" "c < 0x10000" "\<not> isSurrogate c"
  shows "utf8 c = [0xE0 + c div 4096, 0x80 + c div 64 mod 64, 0x80 + c mod 64]"
    and "leadingOnes (0xE0 + c div 4096) = 3"
    and "utf8Decode [0xE0 + c div 4096, 0x80 + c div 64 mod 64, 0x80 + c mod 64] = Some c"
    and "0xE0 + c div 4096 < 256"
proof -
  from assms have d: "c div 4096 < 16" by (simp add: r1)
  have v: "c div 4096 * 4096 + c div 64 mod 64 * 64 + c mod 64 = c"
    by (rule split3)
  show "utf8 c = [0xE0 + c div 4096, 0x80 + c div 64 mod 64, 0x80 + c mod 64]"
    using assms by (simp add: utf8_def)
  show "leadingOnes (0xE0 + c div 4096) = 3" using d by (simp add: leadingOnes_def)
  show "utf8Decode [0xE0 + c div 4096, 0x80 + c div 64 mod 64, 0x80 + c mod 64] = Some c"
    using d v assms by (simp add: isContinuation_def Let_def)
  show "0xE0 + c div 4096 < 256" using d by simp
qed

lemma utf8_four:
  assumes "0x10000 \<le> c" "c \<le> 0x10FFFF"
  shows "utf8 c = [0xF0 + c div 262144, 0x80 + c div 4096 mod 64, 0x80 + c div 64 mod 64, 0x80 + c mod 64]"
    and "leadingOnes (0xF0 + c div 262144) = 4"
    and "utf8Decode [0xF0 + c div 262144, 0x80 + c div 4096 mod 64, 0x80 + c div 64 mod 64, 0x80 + c mod 64] = Some c"
    and "0xF0 + c div 262144 < 256"
proof -
  from assms have d: "c div 262144 < 8" by (simp add: r2)
  have v: "c div 262144 * 262144 + c div 4096 mod 64 * 4096 + c div 64 mod 64 * 64 + c mod 64 = c"
    by (rule split4)
  show "utf8 c = [0xF0 + c div 262144, 0x80 + c div 4096 mod 64, 0x80 + c div 64 mod 64, 0x80 + c mod 64]"
    using assms by (simp add: utf8_def)
  show "leadingOnes (0xF0 + c div 262144) = 4" using d by (simp add: leadingOnes_def)
  show "utf8Decode [0xF0 + c div 262144, 0x80 + c div 4096 mod 64, 0x80 + c div 64 mod 64, 0x80 + c mod 64] = Some c"
    using d v assms by (simp add: isContinuation_def Let_def)
  show "0xF0 + c div 262144 < 256" using d by simp
qed

lemma continuation_byte: "0x80 + (n::nat) mod 64 < 256"
proof -
  have "n mod 64 < 64" by simp
  then show ?thesis by linarith
qed

lemma utf8_shape:
  assumes "0x80 \<le> c" "c \<le> 0x10FFFF" "\<not> isSurrogate c"
  shows "\<exists>b0 bs. utf8 c = b0 # bs \<and> b0 < 256 \<and> (\<forall>B \<in> set bs. B < 256)
          \<and> leadingOnes b0 = Suc (length bs) \<and> 1 \<le> length bs \<and> length bs \<le> 3
          \<and> utf8Decode (b0 # bs) = Some c"
proof (cases "c < 0x800")
  case True
  note t = utf8_two [OF assms(1) True]
  show ?thesis
  proof (intro exI conjI)
    show "utf8 c = (0xC0 + c div 64) # [0x80 + c mod 64]" by (rule t(1))
    show "0xC0 + c div 64 < 256" by (rule t(4))
    show "\<forall>B \<in> set [0x80 + c mod 64]. B < 256" using continuation_byte [of c] by simp
    show "leadingOnes (0xC0 + c div 64) = Suc (length [0x80 + c mod 64])" using t(2) by simp
    show "1 \<le> length [0x80 + c mod 64]" by simp
    show "length [0x80 + c mod 64] \<le> 3" by simp
    show "utf8Decode ((0xC0 + c div 64) # [0x80 + c mod 64]) = Some c" by (rule t(3))
  qed
next
  case False
  then have lo: "0x800 \<le> c" by simp
  show ?thesis
  proof (cases "c < 0x10000")
    case True
    note t = utf8_three [OF lo True assms(3)]
    let ?bs = "[0x80 + c div 64 mod 64, 0x80 + c mod 64]"
    show ?thesis
    proof (intro exI conjI)
      show "utf8 c = (0xE0 + c div 4096) # ?bs" by (rule t(1))
      show "0xE0 + c div 4096 < 256" by (rule t(4))
      show "\<forall>B \<in> set ?bs. B < 256"
        using continuation_byte [of c] continuation_byte [of "c div 64"] by simp
      show "leadingOnes (0xE0 + c div 4096) = Suc (length ?bs)" using t(2) by simp
      show "1 \<le> length ?bs" by simp
      show "length ?bs \<le> 3" by simp
      show "utf8Decode ((0xE0 + c div 4096) # ?bs) = Some c" by (rule t(3))
    qed
  next
    case False
    then have "0x10000 \<le> c" by simp
    note t = utf8_four [OF this assms(2)]
    let ?bs = "[0x80 + c div 4096 mod 64, 0x80 + c div 64 mod 64, 0x80 + c mod 64]"
    show ?thesis
    proof (intro exI conjI)
      show "utf8 c = (0xF0 + c div 262144) # ?bs" by (rule t(1))
      show "0xF0 + c div 262144 < 256" by (rule t(4))
      show "\<forall>B \<in> set ?bs. B < 256"
        using continuation_byte [of c] continuation_byte [of "c div 64"]
          continuation_byte [of "c div 4096"] by simp
      show "leadingOnes (0xF0 + c div 262144) = Suc (length ?bs)" using t(2) by simp
      show "1 \<le> length ?bs" by simp
      show "length ?bs \<le> 3" by simp
      show "utf8Decode ((0xF0 + c div 262144) # ?bs) = Some c" by (rule t(3))
    qed
  qed
qed

lemma decode_multi:
  assumes "0x80 \<le> c" "c \<le> 0x10FFFF" "\<not> isSurrogate c"
  shows "decodeURIComponent (concat (map pct (utf8 c)) @ r) = consOk c (decodeURIComponent r)"
proof -
  from utf8_shape [OF assms] obtain b0 bs where u: "utf8 c = b0 # bs" "b0 < 256" "\<forall>B \<in> set bs. B < 256"
    "leadingOnes b0 = Suc (length bs)" "1 \<le> length bs" "length bs \<le> 3"
    "utf8Decode (b0 # bs) = Some c"
    by blast
  have p: "pctOctet (pct b0 @ concat (map pct bs) @ r) = Some (b0, concat (map pct bs) @ r)"
    using u(2) by (rule pctOctet_pct)
  have q: "pctOctets (length bs) (concat (map pct bs) @ r) = Some (bs, r)"
    using u(3) by (rule pctOctets_pct)
  from u(5) have ne: "bs \<noteq> []" by auto
  have "decodeURIComponent (pct b0 @ concat (map pct bs) @ r) = consOk c (decodeURIComponent r)"
    unfolding decode_escape [OF p] using u(4-7) q ne by simp
  then show ?thesis using u(1) by simp
qed

lemma decode_encoded_char:
  assumes "\<not> uriUnreserved c" "\<not> isSurrogate c" "c \<le> 0x10FFFF"
  shows "decodeURIComponent (concat (map pct (utf8 c)) @ r) = consOk c (decodeURIComponent r)"
proof (cases "c < 0x80")
  case True
  then have "utf8 c = [c]" by (simp add: utf8_def)
  with decode_ascii [OF True, of r] show ?thesis by simp
next
  case False
  then have "0x80 \<le> c" by simp
  from decode_multi [OF this assms(3) assms(2)] show ?thesis .
qed

text \<open>Decoding undoes encoding.\<close>

lemma decode_encode: "encodeURIComponent x = Inr y \<Longrightarrow> decodeURIComponent y = Inr x"
proof (induction x arbitrary: y)
  case Nil
  then show ?case by simp
next
  case (Cons c cs)
  show ?case
  proof (cases "uriUnreserved c")
    case True
    with Cons.prems obtain r where r: "encodeURIComponent cs = Inr r" "y = c # r"
      by (cases "encodeURIComponent cs") (auto simp: consOk_def)
    from Cons.IH [OF r(1)] True r(2) show ?thesis
      by (simp add: unreserved_not_percent consOk_def)
  next
    case False
    with Cons.prems have ok: "\<not> isSurrogate c" "c \<le> 0x10FFFF"
      by (auto split: if_splits)
    with Cons.prems False obtain r where
      r: "encodeURIComponent cs = Inr r" "y = concat (map pct (utf8 c)) @ r"
      by (cases "encodeURIComponent cs") auto
    from decode_encoded_char [OF False ok, of r] Cons.IH [OF r(1)] r(2)
    show ?thesis by (simp add: consOk_def)
  qed
qed

lemma utf8_nonempty: "utf8 c \<noteq> []"
  by (simp add: utf8_def)

lemma percent_in_escape: "37 \<in> set (concat (map pct (utf8 c)))"
proof -
  obtain b bs where "utf8 c = b # bs" using utf8_nonempty [of c] by (cases "utf8 c") auto
  then show ?thesis by (simp add: pct_def)
qed

text \<open>An encoding without a percent sign is the string itself.\<close>

lemma encode_without_percent: "encodeURIComponent x = Inr y \<Longrightarrow> 37 \<notin> set y \<Longrightarrow> y = x"
proof (induction x arbitrary: y)
  case Nil
  then show ?case by simp
next
  case (Cons c cs)
  show ?case
  proof (cases "uriUnreserved c")
    case True
    with Cons.prems obtain r where r: "encodeURIComponent cs = Inr r" "y = c # r"
      by (cases "encodeURIComponent cs") (auto simp: consOk_def)
    with Cons.prems(2) have "37 \<notin> set r" by simp
    from Cons.IH [OF r(1) this] r(2) show ?thesis by simp
  next
    case False
    with Cons.prems obtain r where "y = concat (map pct (utf8 c)) @ r"
      by (cases "encodeURIComponent cs") (auto split: if_splits)
    with percent_in_escape [of c] Cons.prems(2) show ?thesis by simp
  qed
qed

text \<open>An encoding is made of ASCII characters, so it can be encoded again.\<close>

lemma utf8_bytes: "c \<le> 0x10FFFF \<Longrightarrow> \<forall>B \<in> set (utf8 c). B < 256"
proof -
  assume c: "c \<le> 0x10FFFF"
  then have "c div 262144 < 8" by (rule r2)
  moreover have "c < 0x10000 \<longrightarrow> c div 4096 < 16" by (simp add: r1)
  moreover have "c < 0x800 \<longrightarrow> c div 64 < 32" by (simp add: div_less_iff_less_mult)
  ultimately show ?thesis
    using continuation_byte [of c] continuation_byte [of "c div 64"]
      continuation_byte [of "c div 4096"]
    by (auto simp: utf8_def)
qed

lemma hexDigit_ascii: "d < 16 \<Longrightarrow> hexDigit d < 128"
  by (simp add: hexDigit_def)

lemma pct_ascii: "B < 256 \<Longrightarrow> \<forall>a \<in> set (pct B). a < 128"
proof -
  assume "B < 256"
  then have "B div 16 < 16" by simp
  then show ?thesis by (simp add: pct_def hexDigit_ascii)
qed

lemma unreserved_ascii: "uriUnreserved c \<Longrightarrow> c < 128"
  by (auto simp: uriUnreserved_def)

lemma encode_ascii: "encodeURIComponent x = Inr y \<Longrightarrow> \<forall>a \<in> set y. a < 128"
proof (induction x arbitrary: y)
  case Nil
  then show ?case by simp
next
  case (Cons c cs)
  show ?case
  proof (cases "uriUnreserved c")
    case True
    with Cons.prems obtain r where r: "encodeURIComponent cs = Inr r" "y = c # r"
      by (cases "encodeURIComponent cs") (auto simp: consOk_def)
    from Cons.IH [OF r(1)] r(2) unreserved_ascii [OF True] show ?thesis by simp
  next
    case False
    with Cons.prems have ok: "c \<le> 0x10FFFF" by (auto split: if_splits)
    with Cons.prems False obtain r where
      r: "encodeURIComponent cs = Inr r" "y = concat (map pct (utf8 c)) @ r"
      by (cases "encodeURIComponent cs") (auto split: if_splits)
    have "\<forall>a \<in> set (concat (map pct (utf8 c))). a < 128"
      using utf8_bytes [OF ok] pct_ascii by auto
    with Cons.IH [OF r(1)] r(2) show ?thesis by auto
  qed
qed

lemma encode_of_ascii: "\<forall>a \<in> set x. a < 128 \<Longrightarrow> \<exists>y. encodeURIComponent x = Inr y"
proof (induction x)
  case Nil
  then show ?case by simp
next
  case (Cons c cs)
  then obtain r where r: "encodeURIComponent cs = Inr r" by auto
  from Cons.prems have "c < 128" by simp
  then have "\<not> isSurrogate c" "\<not> 0x10FFFF < c" by (simp_all add: isSurrogate_def)
  with r show ?case by (simp add: consOk_def)
qed

lemma pctOctet_three: "pctOctet s = Some (B, rest) \<Longrightarrow> length s = length rest + 3"
  by (induction s rule: pctOctet.induct) (auto split: if_splits option.splits)

lemma consOk_Inr: "consOk c x = Inr r \<Longrightarrow> \<exists>r'. x = Inr r' \<and> r = c # r'"
  by (cases x) (auto simp: consOk_def)

text \<open>Decoding never lengthens a string, and shortens one that has a percent sign.\<close>

lemma decode_length:
  "decodeURIComponent s = Inr r \<Longrightarrow> length r \<le> length s \<and> (37 \<in> set s \<longrightarrow> length r < length s)"
proof (induction "length s" arbitrary: s r rule: less_induct)
  case less
  show ?case
  proof (cases s)
    case Nil
    with less.prems show ?thesis by simp
  next
    case (Cons C cs)
    show ?thesis
    proof (cases "C = 37")
      case False
      with less.prems Cons have "consOk C (decodeURIComponent cs) = Inr r" by simp
      then obtain r' where r': "decodeURIComponent cs = Inr r'" "r = C # r'"
        by (auto dest: consOk_Inr)
      have "length cs < length s" using Cons by simp
      from less.hyps [OF this r'(1)] r'(2) Cons False show ?thesis by simp
    next
      case True
      with less.prems Cons obtain B rest where p: "pctOctet s = Some (B, rest)"
        by (cases "pctOctet (C # cs)") auto
      note len = pctOctet_three [OF p]
      note eq = decode_escape [OF p]
      show ?thesis
      proof (cases "leadingOnes B = 0")
        case z: True
        with eq less.prems have "consOk B (decodeURIComponent rest) = Inr r" by simp
        then obtain r' where r': "decodeURIComponent rest = Inr r'" "r = B # r'"
          by (auto dest: consOk_Inr)
        have "length rest < length s" using len by simp
        from less.hyps [OF this r'(1)] r'(2) len show ?thesis by simp
      next
        case nz: False
        with eq less.prems obtain Bs rest' where
          q: "pctOctets (leadingOnes B - 1) rest = Some (Bs, rest')"
          by (cases "pctOctets (leadingOnes B - 1) rest") (auto split: if_splits)
        with eq less.prems nz obtain V where v: "utf8Decode (B # Bs) = Some V"
          by (cases "utf8Decode (B # Bs)") (auto split: if_splits)
        with eq less.prems nz q have "consOk V (decodeURIComponent rest') = Inr r"
          by (auto split: if_splits)
        then obtain r' where r': "decodeURIComponent rest' = Inr r'" "r = V # r'"
          by (auto dest: consOk_Inr)
        have l2: "length rest' \<le> length rest" using q by (rule pctOctets_shorter)
        then have "length rest' < length s" using len by simp
        from less.hyps [OF this r'(1)] r'(2) len l2 show ?thesis by simp
      qed
    qed
  qed
qed

lemma decode_changes_percent: "37 \<in> set s \<Longrightarrow> decodeURIComponent s \<noteq> Inr s"
  using decode_length [of s s] by auto

lemmas uri_eval = uriUnreserved_def isSurrogate_def utf8_def pct_def hexDigit_def consOk_def
  hexOctet_def digitValue_def leadingOnes_def isContinuation_def finalKeyOf_def

lemma enc_space: "encodeURIComponent (str ''my movie.mp4'') = Inr (str ''my%20movie.mp4'')"
  by (simp add: uri_eval)

lemma enc_space2: "encodeURIComponent (str ''my%20movie.mp4'') = Inr (str ''my%2520movie.mp4'')"
  by (simp add: uri_eval)

text \<open>
  C7 (as amended). The key decoding makes one pass of \<open>decodeURIComponent\<close> and at most one
  more, never a loop. A key that was percent-encoded twice decodes back to the original key
  (the second pass runs exactly when the once-encoded key contains a percent sign, and then
  the first pass alone gives the once-encoded key). A key that was encoded once decodes to the
  original key after the first pass, and the result is the original key provided the original
  key contains no percent sign; when it contains one, the second pass runs on the original key
  and the result is never the original key.
\<close>

theorem finalKey_decoding:
  assumes "encodeURIComponent key = Inr once"
  shows "(finalKeyOf once = decodeURIComponent once
            \<or> finalKeyOf once = decodeURIComponent key)
       \<and> decodeURIComponent once = Inr key
       \<and> (37 \<notin> set key \<longrightarrow> finalKeyOf once = Inr key)
       \<and> (37 \<in> set key \<longrightarrow> finalKeyOf once = decodeURIComponent key \<and> finalKeyOf once \<noteq> Inr key)
       \<and> (\<exists>twice. encodeURIComponent once = Inr twice
             \<and> decodeURIComponent twice = Inr once
             \<and> finalKeyOf twice = Inr key
             \<and> (37 \<in> set once \<longrightarrow> finalKeyOf twice = decodeURIComponent once))"
proof -
  have d1: "decodeURIComponent once = Inr key" using assms by (rule decode_encode)
  have f1: "finalKeyOf once = (if 37 \<in> set key then decodeURIComponent key else Inr key)"
    by (simp add: finalKeyOf_def d1)
  from encode_of_ascii [OF encode_ascii [OF assms]] obtain twice where
    t: "encodeURIComponent once = Inr twice" by blast
  have d2: "decodeURIComponent twice = Inr once" using t by (rule decode_encode)
  have f2: "finalKeyOf twice = Inr key"
  proof (cases "37 \<in> set once")
    case True
    then show ?thesis by (simp add: finalKeyOf_def d2 d1)
  next
    case False
    with assms have "once = key" by (rule encode_without_percent)
    with False show ?thesis by (simp add: finalKeyOf_def d2)
  qed
  have f2': "37 \<in> set once \<longrightarrow> finalKeyOf twice = decodeURIComponent once"
    by (simp add: finalKeyOf_def d2)
  have a: "finalKeyOf once = decodeURIComponent once \<or> finalKeyOf once = decodeURIComponent key"
    using f1 d1 by auto
  have b: "37 \<notin> set key \<longrightarrow> finalKeyOf once = Inr key" using f1 by simp
  have c: "37 \<in> set key \<longrightarrow> finalKeyOf once = decodeURIComponent key \<and> finalKeyOf once \<noteq> Inr key"
    using f1 decode_changes_percent [of key] by simp
  from t d2 f2 f2' have e: "\<exists>twice. encodeURIComponent once = Inr twice
             \<and> decodeURIComponent twice = Inr once
             \<and> finalKeyOf twice = Inr key
             \<and> (37 \<in> set once \<longrightarrow> finalKeyOf twice = decodeURIComponent once)"
    by blast
  from a d1 b c e show ?thesis by blast
qed

theorem finalKey_decoding_witness:
  "encodeURIComponent (str ''my movie.mp4'') = Inr (str ''my%20movie.mp4'')
   \<and> encodeURIComponent (str ''my%20movie.mp4'') = Inr (str ''my%2520movie.mp4'')
   \<and> finalKeyOf (str ''my%2520movie.mp4'') = Inr (str ''my movie.mp4'')
   \<and> finalKeyOf (str ''my%20movie.mp4'') = Inr (str ''my movie.mp4'')"
proof -
  let ?key = "str ''my movie.mp4''" and ?once = "str ''my%20movie.mp4''"
    and ?twice = "str ''my%2520movie.mp4''"
  have n: "37 \<notin> set ?key" by simp
  from finalKey_decoding [OF enc_space] obtain twice where
    t: "encodeURIComponent ?once = Inr twice" "finalKeyOf twice = Inr ?key"
    and o: "37 \<notin> set ?key \<longrightarrow> finalKeyOf ?once = Inr ?key"
    by blast
  from t(1) have "twice = ?twice" unfolding enc_space2 by (simp only: sum.inject)
  with t(2) have a: "finalKeyOf ?twice = Inr ?key" by (simp only:)
  from o n have b: "finalKeyOf ?once = Inr ?key" by (rule mp)
  from enc_space enc_space2 a b show ?thesis by (simp only: simp_thms)
qed

theorem finalKey_decoding_counterexample:
  "encodeURIComponent (str ''a%41.mp4'') = Inr (str ''a%2541.mp4'')
   \<and> decodeURIComponent (str ''a%2541.mp4'') = Inr (str ''a%41.mp4'')
   \<and> finalKeyOf (str ''a%2541.mp4'') = Inr (str ''aA.mp4'')"
  by (simp add: uri_eval)

section \<open>Properties of the streaming proxy\<close>

lemma edgeTier_signer_error:
  "cloudFrontSign e tr finalKey = Inl err \<Longrightarrow> cloudFrontAvailable e \<Longrightarrow> usesEdge finalKey \<Longrightarrow>
     edgeTier e finalKey tr = (None, tr @ [SignEdge finalKey])"
  by (simp add: edgeTier_def usesEdge_def Let_def)

lemma edgeTier_fetch_error:
  "cloudFrontSign e tr finalKey = Inr signedUrl \<Longrightarrow>
   fetch e (tr @ [SignEdge finalKey]) signedUrl None = Inl err \<Longrightarrow>
   cloudFrontAvailable e \<Longrightarrow> usesEdge finalKey \<Longrightarrow>
     edgeTier e finalKey tr = (None, tr @ [SignEdge finalKey, Fetch signedUrl None])"
  by (simp add: edgeTier_def usesEdge_def Let_def)

lemma edgeTier_no_body:
  "cloudFrontSign e tr finalKey = Inr signedUrl \<Longrightarrow>
   fetch e (tr @ [SignEdge finalKey]) signedUrl None = Inr response \<Longrightarrow>
   up_body response = None \<Longrightarrow>
   cloudFrontAvailable e \<Longrightarrow> usesEdge finalKey \<Longrightarrow>
     edgeTier e finalKey tr =
       (Some (jsonReply 500
                (corsHeaders @ contentTypeHeader response (contentTypeOf (fileExtensionOf finalKey)))
                ''No response body from CloudFront'' None),
        tr @ [SignEdge finalKey, Fetch signedUrl None])"
  by (simp add: edgeTier_def usesEdge_def Let_def)

lemma edgeTier_response:
  "cloudFrontSign e tr finalKey = Inr signedUrl \<Longrightarrow>
   fetch e (tr @ [SignEdge finalKey]) signedUrl None = Inr response \<Longrightarrow>
   up_body response = Some body \<Longrightarrow>
   cloudFrontAvailable e \<Longrightarrow> usesEdge finalKey \<Longrightarrow>
     edgeTier e finalKey tr =
       (Some \<lparr>rp_status = up_status response,
              rp_headers = corsHeaders @ contentTypeHeader response (contentTypeOf (fileExtensionOf finalKey)),
              rp_payload = Piped body\<rparr>,
        tr @ [SignEdge finalKey, Fetch signedUrl None])"
  by (simp add: edgeTier_def usesEdge_def Let_def)

lemmas proxy_eval = streamContent_def edgeTier_def originTiers_def standardTier_def rangeTier_def
  outerCatch_def fileExtensionOf_def toLowerCase_def contentTypeOf_def contentTypeHeader_def
  copied_def corsHeaders_def jsonReply_def truthyStr_def okUpstream_def Let_def

lemma finalKey_plain: "finalKeyOf (str ''movie.mp4'') = Inr (str ''movie.mp4'')"
  by (simp add: uri_eval)

lemma usesEdge_plain: "usesEdge (str ''movie.mp4'')"
  by (simp add: usesEdge_def fileExtensionOf_def toLowerCase_def)

text \<open>
  C6 (as amended). For a key that the edge tier serves (edge CDN available, extension m3u8,
  ts or mp4): when the edge signer throws, or the fetch of the signed edge URL throws, the
  handler falls through to the origin tiers and its reply is exactly what they produce; no
  error and no status of the edge tier reaches the client. When the fetch of the edge URL
  returns a response, the handler relays that response with its status, 2xx or not (or answers
  500 when the response has no body), and makes no call to the origin.
\<close>

theorem edge_tier_outcome:
  assumes "key \<noteq> []" and "finalKeyOf key = Inr finalKey"
    and "cloudFrontAvailable e" and "usesEdge finalKey"
  shows "(\<forall>err. cloudFrontSign e tr finalKey = Inl err \<longrightarrow>
            streamContent e key rangeHeader tr
              = outerCatch (originTiers e finalKey rangeHeader (tr @ [SignEdge finalKey])))
       \<and> (\<forall>signedUrl err. cloudFrontSign e tr finalKey = Inr signedUrl
              \<and> fetch e (tr @ [SignEdge finalKey]) signedUrl None = Inl err \<longrightarrow>
            streamContent e key rangeHeader tr
              = outerCatch (originTiers e finalKey rangeHeader
                              (tr @ [SignEdge finalKey, Fetch signedUrl None])))
       \<and> (\<forall>signedUrl response body. cloudFrontSign e tr finalKey = Inr signedUrl
              \<and> fetch e (tr @ [SignEdge finalKey]) signedUrl None = Inr response
              \<and> up_body response = Some body \<longrightarrow>
            streamContent e key rangeHeader tr
              = (\<lparr>rp_status = up_status response,
                   rp_headers = corsHeaders
                      @ contentTypeHeader response (contentTypeOf (fileExtensionOf finalKey)),
                   rp_payload = Piped body\<rparr>,
                 tr @ [SignEdge finalKey, Fetch signedUrl None]))
       \<and> (\<forall>signedUrl response. cloudFrontSign e tr finalKey = Inr signedUrl
              \<and> fetch e (tr @ [SignEdge finalKey]) signedUrl None = Inr response
              \<and> up_body response = None \<longrightarrow>
            streamContent e key rangeHeader tr
              = (jsonReply 500
                   (corsHeaders @ contentTypeHeader response (contentTypeOf (fileExtensionOf finalKey)))
                   ''No response body from CloudFront'' None,
                 tr @ [SignEdge finalKey, Fetch signedUrl None]))"
proof (intro conjI allI impI)
  fix err assume "cloudFrontSign e tr finalKey = Inl err"
  from edgeTier_signer_error [OF this assms(3,4)] assms(1,2)
  show "streamContent e key rangeHeader tr
          = outerCatch (originTiers e finalKey rangeHeader (tr @ [SignEdge finalKey]))"
    by (simp add: streamContent_def)
next
  fix signedUrl err
  assume "cloudFrontSign e tr finalKey = Inr signedUrl
            \<and> fetch e (tr @ [SignEdge finalKey]) signedUrl None = Inl err"
  then have "edgeTier e finalKey tr = (None, tr @ [SignEdge finalKey, Fetch signedUrl None])"
    using assms(3,4) by (auto intro: edgeTier_fetch_error)
  with assms(1,2)
  show "streamContent e key rangeHeader tr
          = outerCatch (originTiers e finalKey rangeHeader (tr @ [SignEdge finalKey, Fetch signedUrl None]))"
    by (simp add: streamContent_def)
next
  fix signedUrl response body
  assume "cloudFrontSign e tr finalKey = Inr signedUrl
              \<and> fetch e (tr @ [SignEdge finalKey]) signedUrl None = Inr response
              \<and> up_body response = Some body"
  then have "edgeTier e finalKey tr =
       (Some \<lparr>rp_status = up_status response,
              rp_headers = corsHeaders @ contentTypeHeader response (contentTypeOf (fileExtensionOf finalKey)),
              rp_payload = Piped body\<rparr>,
        tr @ [SignEdge finalKey, Fetch signedUrl None])"
    using assms(3,4) by (auto intro: edgeTier_response)
  with assms(1,2)
  show "streamContent e key rangeHeader tr
              = (\<lparr>rp_status = up_status response,
                   rp_headers = corsHeaders
                      @ contentTypeHeader response (contentTypeOf (fileExtensionOf finalKey)),
                   rp_payload = Piped body\<rparr>,
                 tr @ [SignEdge finalKey, Fetch signedUrl None])"
    by (simp add: streamContent_def)
next
  fix signedUrl response
  assume "cloudFrontSign e tr finalKey = Inr signedUrl
              \<and> fetch e (tr @ [SignEdge finalKey]) signedUrl None = Inr response
              \<and> up_body response = None"
  then have "edgeTier e finalKey tr =
       (Some (jsonReply 500
                (corsHeaders @ contentTypeHeader response (contentTypeOf (fileExtensionOf finalKey)))
                ''No response body from CloudFront'' None),
        tr @ [SignEdge finalKey, Fetch signedUrl None])"
    using assms(3,4) by (auto intro: edgeTier_no_body)
  with assms(1,2)
  show "streamContent e key rangeHeader tr
              = (jsonReply 500
                   (corsHeaders @ contentTypeHeader response (contentTypeOf (fileExtensionOf finalKey)))
                   ''No response body from CloudFront'' None,
                 tr @ [SignEdge finalKey, Fetch signedUrl None])"
    by (simp add: streamContent_def)
qed

theorem edge_tier_outcome_witness:
  "cloudFrontSign edgeDownEnv [] (str ''movie.mp4'') = Inl (Error (str ''no key pair''))
   \<and> streamContent edgeDownEnv (str ''movie.mp4'') None []
       = (\<lparr>rp_status = 200,
            rp_headers = corsHeaders @ [(str ''Content-Type'', str ''video/mp4''),
                                        (str ''Cache-Control'', str ''public, max-age=31536000'')],
            rp_payload = Piped (str ''bytes'')\<rparr>,
          [SignEdge (str ''movie.mp4''), SignOrigin (str ''movie.mp4''),
           Fetch (str ''https://origin/movie.mp4'') None])"
proof -
  have k: "str ''movie.mp4'' \<noteq> []" by simp
  have a: "cloudFrontAvailable edgeDownEnv" by (simp add: edgeDownEnv_def)
  have s: "cloudFrontSign edgeDownEnv [] (str ''movie.mp4'') = Inl (Error (str ''no key pair''))"
    by (simp add: edgeDownEnv_def)
  have o: "outerCatch (originTiers edgeDownEnv (str ''movie.mp4'') None ([] @ [SignEdge (str ''movie.mp4'')]))
       = (\<lparr>rp_status = 200,
            rp_headers = corsHeaders @ [(str ''Content-Type'', str ''video/mp4''),
                                        (str ''Cache-Control'', str ''public, max-age=31536000'')],
            rp_payload = Piped (str ''bytes'')\<rparr>,
          [SignEdge (str ''movie.mp4''), SignOrigin (str ''movie.mp4''),
           Fetch (str ''https://origin/movie.mp4'') None])"
    by (simp add: proxy_eval edgeDownEnv_def)
  from edge_tier_outcome [OF k finalKey_plain a usesEdge_plain, of "[]" None] s
  have "streamContent edgeDownEnv (str ''movie.mp4'') None []
          = outerCatch (originTiers edgeDownEnv (str ''movie.mp4'') None ([] @ [SignEdge (str ''movie.mp4'')]))"
    by blast
  with o s show ?thesis by (simp only: simp_thms)
qed

theorem edge_tier_counterexample:
  "cloudFrontAvailable edgeDeniedEnv
   \<and> fetch edgeDeniedEnv [SignEdge (str ''movie.mp4'')] (str ''https://edge/movie.mp4'') None
       = Inr (okUpstream 403 ''AccessDenied'')
   \<and> streamContent edgeDeniedEnv (str ''movie.mp4'') None []
       = (\<lparr>rp_status = 403,
            rp_headers = corsHeaders @ [(str ''Content-Type'', str ''video/mp4'')],
            rp_payload = Piped (str ''AccessDenied'')\<rparr>,
          [SignEdge (str ''movie.mp4''), Fetch (str ''https://edge/movie.mp4'') None])"
  by (simp add: proxy_eval edgeDeniedEnv_def uri_eval)

end
